theory Spec2Isabelle
  imports Complex_Main
begin

section \<open>Response cache (src/utils/cache.ts, class CacheManager)\<close>

text \<open>
  Times are the values of \<^verbatim>\<open>Date.now()\<close>: integers, in milliseconds. Every operation
  that reads the clock takes the reading as its argument \<open>now\<close>. JavaScript numbers that
  hold counts, costs and limits are modelled as unbounded integers.

  The model is the cache manager on its in-memory backend (\<^verbatim>\<open>this.memoryCache\<close>), the
  branch every method takes while \<^verbatim>\<open>this.useRedis\<close> is false, which is the initial value
  of that field. Logger calls only write to the log and are left out; the trace of a
  request of the broker keeps the warning logged for a failed provider.
\<close>

record 'v CacheEntry =
  data :: 'v
  timestamp :: int
  ttl :: int

record CacheTTL =
  transcripts :: int
  videoDetails :: int
  searchResults :: int
  comments :: int

record 'v CacheManager =
  memoryCache :: "string \<Rightarrow> 'v CacheEntry option"
  cacheConfig :: CacheTTL

definition isExpired :: "int \<Rightarrow> 'v CacheEntry \<Rightarrow> bool" where
  "isExpired now entry = (now - timestamp entry > ttl entry * 1000)"

definition startsWith :: "string \<Rightarrow> string \<Rightarrow> bool" where
  "startsWith key p = (take (length p) key = p)"

definition getDefaultTTL :: "'v CacheManager \<Rightarrow> string \<Rightarrow> int" where
  "getDefaultTTL c key =
     (if startsWith key ''transcript:'' then transcripts (cacheConfig c)
      else if startsWith key ''video:'' then videoDetails (cacheConfig c)
      else if startsWith key ''search:'' then searchResults (cacheConfig c)
      else if startsWith key ''comments:'' then comments (cacheConfig c)
      else if startsWith key ''trending:'' then searchResults (cacheConfig c)
      else if startsWith key ''channel:'' then videoDetails (cacheConfig c)
      else 3600)"

text \<open>
  \<^verbatim>\<open>get\<close> returns the payload or \<^verbatim>\<open>null\<close> (here \<open>None\<close>) together with the cache as
  the call leaves it: an expired entry found under the key is deleted.
\<close>

definition get :: "int \<Rightarrow> 'v CacheManager \<Rightarrow> string \<Rightarrow> 'v option \<times> 'v CacheManager" where
  "get now c key =
     (case memoryCache c key of
        None \<Rightarrow> (None, c)
      | Some entry \<Rightarrow>
          if isExpired now entry
          then (None, c\<lparr>memoryCache := (memoryCache c)(key := None)\<rparr>)
          else (Some (data entry), c))"

text \<open>
  The optional argument \<^verbatim>\<open>ttl\<close> is \<open>None\<close> when the caller leaves it out;
  \<^verbatim>\<open>ttl || this.getDefaultTTL(key)\<close> also falls back to the default when it is 0.
\<close>

definition set_entry :: "int \<Rightarrow> 'v CacheManager \<Rightarrow> string \<Rightarrow> 'v \<Rightarrow> int option \<Rightarrow> 'v CacheManager" where
  "set_entry now c key d ttl_arg =
     (let cacheEntry = \<lparr>data = d, timestamp = now,
                        ttl = (case ttl_arg of
                                 None \<Rightarrow> getDefaultTTL c key
                               | Some t \<Rightarrow> if t = 0 then getDefaultTTL c key else t)\<rparr>
      in c\<lparr>memoryCache := (memoryCache c)(key \<mapsto> cacheEntry)\<rparr>)"

definition del :: "'v CacheManager \<Rightarrow> string \<Rightarrow> 'v CacheManager" where
  "del c key = c\<lparr>memoryCache := (memoryCache c)(key := None)\<rparr>"

section \<open>Quota ledger (src/utils/quota.ts, class QuotaManager)\<close>

record QuotaConfig =
  dailyLimit :: int
  reserveBuffer :: int
  prioritizeRecent :: bool
  warningThreshold :: int

record QuotaManager =
  usage :: int
  config :: QuotaConfig
  resetTime :: int

text \<open>
  The ledger holds a reference to the shared cache manager; a method that touches both
  takes and returns the pair.
\<close>

type_synonym ledger = "QuotaManager \<times> int CacheManager"

definition canPerformOperation :: "QuotaManager \<Rightarrow> int \<Rightarrow> bool" where
  "canPerformOperation q cost =
     (let availableQuota = dailyLimit (config q) - reserveBuffer (config q)
      in usage q + cost \<le> availableQuota)"

definition recordUsage :: "int \<Rightarrow> int \<Rightarrow> string \<Rightarrow> ledger \<Rightarrow> ledger" where
  "recordUsage now cost operation w =
     (let q = (fst w)\<lparr>usage := usage (fst w) + cost\<rparr>
      in (q, set_entry now (snd w) ''quota:daily_usage'' (usage q) (Some 86400)))"

definition getAvailableQuota :: "QuotaManager \<Rightarrow> int" where
  "getAvailableQuota q =
     (let availableQuota = dailyLimit (config q) - reserveBuffer (config q)
      in max 0 (availableQuota - usage q))"

text \<open>
  \<^verbatim>\<open>costs[operation] || 1\<close> reads a property of an object literal. For the six keys of
  the table it is the number listed, and for any other string that is not a property the
  object inherits it is 1. For the names \<^verbatim>\<open>Object.prototype\<close> provides, the lookup yields
  that inherited function or object, which is truthy and is returned as it is: it is not a
  number, and every comparison with it is false. \<open>None\<close> stands for such a value.
\<close>

definition inheritedKeys :: "string list" where
  "inheritedKeys =
     [''constructor'', ''toString'', ''toLocaleString'', ''valueOf'', ''hasOwnProperty'',
      ''isPrototypeOf'', ''propertyIsEnumerable'', ''__proto__'', ''__defineGetter__'',
      ''__defineSetter__'', ''__lookupGetter__'', ''__lookupSetter__'']"

definition getOperationCost :: "string \<Rightarrow> int option" where
  "getOperationCost operation =
     (if operation = ''search'' then Some 100
      else if operation = ''video_details'' then Some 1
      else if operation = ''trending'' then Some 1
      else if operation = ''comments'' then Some 1
      else if operation = ''channel_details'' then Some 1
      else if operation = ''channel_search'' then Some 100
      else if operation \<in> set inheritedKeys then None
      else Some 1)"

text \<open>
  \<^verbatim>\<open>(this.usage / this.config.dailyLimit) * 100 > t\<close>, in exact arithmetic. A division by
  zero gives \<^verbatim>\<open>Infinity\<close>, \<^verbatim>\<open>-Infinity\<close> or \<^verbatim>\<open>NaN\<close>, and only the first exceeds \<open>t\<close>.
\<close>

definition percentageOver :: "QuotaManager \<Rightarrow> real \<Rightarrow> bool" where
  "percentageOver q t =
     (if dailyLimit (config q) = 0 then 0 < usage q
      else t < real_of_int (usage q) / real_of_int (dailyLimit (config q)) * 100)"

definition optimizeOperation :: "QuotaManager \<Rightarrow> string \<Rightarrow> int \<Rightarrow> int" where
  "optimizeOperation q operation requestedItems =
     (let availableQuota = getAvailableQuota q
      in case getOperationCost operation of
           None \<Rightarrow> requestedItems
         | Some cost \<Rightarrow>
             if cost > availableQuota then 0
             else if operation = ''video_details'' \<or> operation = ''channel_details''
             then (let maxItems = availableQuota div cost in min requestedItems maxItems)
             else if (operation = ''search'' \<or> operation = ''channel_search'')
                     \<and> percentageOver q 80
             then min requestedItems 5
             else requestedItems)"

definition shouldUseCachedResults :: "QuotaManager \<Rightarrow> bool" where
  "shouldUseCachedResults q = percentageOver q 85"

text \<open>The next 07:00 UTC after the end of the current UTC day.\<close>

definition getNextResetTime :: "int \<Rightarrow> int" where
  "getNextResetTime now = (now div 86400000 + 1) * 86400000 + 7 * 3600000"

definition resetDailyQuota :: "int \<Rightarrow> ledger \<Rightarrow> ledger" where
  "resetDailyQuota now w =
     ((fst w)\<lparr>usage := 0, resetTime := getNextResetTime now\<rparr>,
      del (snd w) ''quota:daily_usage'')"

definition loadQuotaFromCache :: "int \<Rightarrow> ledger \<Rightarrow> ledger" where
  "loadQuotaFromCache now w =
     (case get now (snd w) ''quota:daily_usage'' of
        (None, c) \<Rightarrow> (fst w, c)
      | (Some cachedUsage, c) \<Rightarrow> ((fst w)\<lparr>usage := cachedUsage\<rparr>, c))"

text \<open>
  The constructor. It starts \<^verbatim>\<open>loadQuotaFromCache\<close> without awaiting it: when the
  constructor returns, the usage is 0 and the cache has not been read. The load runs
  afterwards, as a step of its own (\<open>loadQuotaFromCache\<close> above), and sets the usage to
  the persisted value if the cache has one.
\<close>

definition newQuotaManager :: "int \<Rightarrow> QuotaConfig \<Rightarrow> int CacheManager \<Rightarrow> ledger" where
  "newQuotaManager now cfg c =
     (\<lparr>usage = 0, config = cfg, resetTime = getNextResetTime now\<rparr>, c)"

subsection \<open>Sequences of ledger operations\<close>

text \<open>
  A caller's use of the ledger is a list of calls, each with the clock reading at which it
  is made. \<open>states\<close> lists the ledger after each call. \<open>admitted\<close> says that every
  \<^verbatim>\<open>recordUsage(cost, _)\<close> of the list comes directly after a
  \<^verbatim>\<open>canPerformOperation(cost)\<close> that returned true; its first argument is the cost of
  such a check when the previous call was one.
\<close>

datatype quota_op = CanPerformOperation int | RecordUsage int string

fun step :: "int \<Rightarrow> quota_op \<Rightarrow> ledger \<Rightarrow> ledger" where
  "step now (CanPerformOperation cost) w = w"
| "step now (RecordUsage cost operation) w = recordUsage now cost operation w"

fun states :: "(int \<times> quota_op) list \<Rightarrow> ledger \<Rightarrow> ledger list" where
  "states [] w = []"
| "states (x # ops) w = step (fst x) (snd x) w # states ops (step (fst x) (snd x) w)"

fun admitted :: "int option \<Rightarrow> (int \<times> quota_op) list \<Rightarrow> ledger \<Rightarrow> bool" where
  "admitted prev [] w = True"
| "admitted prev ((t, CanPerformOperation cost) # ops) w =
     admitted (if canPerformOperation (fst w) cost then Some cost else None) ops w"
| "admitted prev ((t, RecordUsage cost operation) # ops) w =
     (prev = Some cost \<and> admitted None ops (recordUsage t cost operation w))"

definition withinBudget :: "ledger \<Rightarrow> bool" where
  "withinBudget w =
     (usage (fst w) \<le> dailyLimit (config (fst w)) - reserveBuffer (config (fst w)))"

definition emptyCache :: "'v CacheManager" where
  "emptyCache = \<lparr>memoryCache = (\<lambda>k. None),
                 cacheConfig = \<lparr>transcripts = 86400, videoDetails = 3600,
                                searchResults = 1800, comments = 7200\<rparr>\<rparr>"

definition defaultQuotaConfig :: "int \<Rightarrow> QuotaConfig" where
  "defaultQuotaConfig limit =
     \<lparr>dailyLimit = limit, reserveBuffer = 1000, prioritizeRecent = True,
      warningThreshold = 75\<rparr>"

section \<open>Generation broker (src/utils/llm-service.ts, class RobustLLMService)\<close>

subsection \<open>Data\<close>

text \<open>
  A string is the list of the bytes of its UTF-8 encoding. \<^verbatim>\<open>rateLimit\<close> of a provider is
  flattened: \<open>requests\<close> and \<open>tokens\<close> are the two counters of \<^verbatim>\<open>currentUsage\<close>.
\<close>

record LLMProvider =
  name :: string
  priority :: int
  rpm :: int
  tpm :: int
  requests :: int
  tokens :: int

record LLMRequest =
  prompt :: string
  model :: "string option"
  maxTokens :: "int option"
  temperature :: "real option"
  responseFormat :: "string option"

text \<open>
  What \<^verbatim>\<open>executeRequest\<close> returns has the first three fields. The object written to the
  cache is that one, so a cached response has no \<open>provider\<close> and no \<open>processingTime\<close>.
\<close>

record LLMResponse =
  content :: string
  tokensUsed :: int
  cost :: real
  provider :: "string option"
  processingTime :: "int option"

text \<open>The properties of a thrown value that \<^verbatim>\<open>isNonRetryableError\<close> reads, and its message.\<close>

record js_error =
  status :: "int option"
  code :: "string option"
  type :: "string option"
  message :: string

datatype thrown = Thrown js_error | AggregateError "js_error list" string

record UserUsage =
  daily :: int
  hourly :: int

text \<open>
  The calls a request makes on its collaborators, in the order it makes them: the rate
  check of a provider and its answer, the cache lookup, the provider call, the recording
  of usage, the cache write, the warning logged for a failed provider, and the timer of
  the backoff with its delay in milliseconds.
\<close>

datatype event =
    EvRateCheck string bool
  | EvCacheGet string
  | EvExecute string
  | EvRecordUsage string int string
  | EvCacheSet string
  | EvFailed string js_error
  | EvBackoff nat

text \<open>
  The service, with the two parts of its surroundings that a request reads and changes:
  \<open>clock\<close> is the current value of \<^verbatim>\<open>Date.now()\<close> and \<open>trace\<close> the events so far.
\<close>

record RobustLLMService =
  providers :: "LLMProvider list"
  openaiClient :: bool
  anthropicClient :: bool
  cache :: "LLMResponse CacheManager"
  userQuotas :: "string \<Rightarrow> UserUsage option"
  clock :: int
  trace :: "event list"

text \<open>
  What lies outside the repository: the tokenizer (\<open>None\<close> when \<^verbatim>\<open>encode\<close> throws),
  the rendering of a number by \<^verbatim>\<open>JSON.stringify\<close>, and the call of a provider's SDK
  together with the reading of its answer, which either throws or yields content, tokens
  used and cost, after some milliseconds.
\<close>

record env =
  encode :: "string \<Rightarrow> nat option"
  numberToString :: "real \<Rightarrow> string"
  complete :: "string \<Rightarrow> LLMRequest \<Rightarrow> (js_error + string \<times> int \<times> real) \<times> nat"

subsection \<open>The cache key\<close>

definition hexDigit :: "nat \<Rightarrow> char" where
  "hexDigit n = ''0123456789abcdef'' ! (n mod 16)"

definition quoteChar :: "char \<Rightarrow> string" where
  "quoteChar ch =
     (let n = (of_char ch :: nat) in
      if n = 0x22 then [CHR 0x5C, CHR 0x22]
      else if n = 0x5C then [CHR 0x5C, CHR 0x5C]
      else if n = 0x08 then [CHR 0x5C, CHR ''b'']
      else if n = 0x09 then [CHR 0x5C, CHR ''t'']
      else if n = 0x0A then [CHR 0x5C, CHR ''n'']
      else if n = 0x0C then [CHR 0x5C, CHR ''f'']
      else if n = 0x0D then [CHR 0x5C, CHR ''r'']
      else if n < 0x20 then [CHR 0x5C, CHR ''u'', CHR ''0'', CHR ''0'', hexDigit (n div 16), hexDigit n]
      else [ch])"

definition quoteJSONString :: "string \<Rightarrow> string" where
  "quoteJSONString s = [CHR 0x22] @ concat (map quoteChar s) @ [CHR 0x22]"

definition jsonProperty :: "string \<Rightarrow> string option \<Rightarrow> string list" where
  "jsonProperty k v = (case v of None \<Rightarrow> [] | Some text \<Rightarrow> [quoteJSONString k @ '':'' @ text])"

text \<open>\<^verbatim>\<open>Array.prototype.join\<close>.\<close>

fun joinWith :: "string \<Rightarrow> string list \<Rightarrow> string" where
  "joinWith sep [] = []"
| "joinWith sep [x] = x"
| "joinWith sep (x # y # ys) = x @ sep @ joinWith sep (y # ys)"

text \<open>
  \<^verbatim>\<open>Buffer.from(key).toString('base64')\<close>: the standard alphabet with padding, over the
  bytes of the UTF-8 encoding.
\<close>

definition base64Char :: "nat \<Rightarrow> char" where
  "base64Char n =
     ''ABCDEFGHIJKLMNOPQRSTUVWXYZabcdefghijklmnopqrstuvwxyz0123456789+/'' ! (n mod 64)"

fun base64 :: "nat list \<Rightarrow> string" where
  "base64 [] = []"
| "base64 [a] = [base64Char (a div 4), base64Char ((a mod 4) * 16), CHR ''='', CHR ''='']"
| "base64 [a, b] =
     [base64Char (a div 4), base64Char ((a mod 4) * 16 + b div 16),
      base64Char ((b mod 16) * 4), CHR ''='']"
| "base64 (a # b # c # rest) =
     [base64Char (a div 4), base64Char ((a mod 4) * 16 + b div 16),
      base64Char ((b mod 16) * 4 + c div 64), base64Char (c mod 64)] @ base64 rest"

text \<open>
  \<^verbatim>\<open>JSON.stringify\<close> of the object literal of \<^verbatim>\<open>createCacheKey\<close>: the properties in the
  order they are written, one that is \<^verbatim>\<open>undefined\<close> left out.
\<close>

definition stringifyKey :: "(real \<Rightarrow> string) \<Rightarrow> LLMRequest \<Rightarrow> string \<Rightarrow> string" where
  "stringifyKey num request providerName =
     ''{'' @ joinWith '','' 
       (jsonProperty ''prompt'' (Some (quoteJSONString (prompt request)))
        @ jsonProperty ''model'' (map_option quoteJSONString (model request))
        @ jsonProperty ''maxTokens'' (map_option (\<lambda>n. num (real_of_int n)) (maxTokens request))
        @ jsonProperty ''temperature'' (map_option num (temperature request))
        @ jsonProperty ''responseFormat'' (map_option quoteJSONString (responseFormat request))
        @ jsonProperty ''provider'' (Some (quoteJSONString providerName)))
     @ ''}''"

definition createCacheKey :: "(real \<Rightarrow> string) \<Rightarrow> LLMRequest \<Rightarrow> string \<Rightarrow> string" where
  "createCacheKey num request providerName =
     (let key = stringifyKey num request providerName
      in ''llm:'' @ take 50 (base64 (map of_char key)))"

subsection \<open>Admission and accounting\<close>

definition newError :: "string \<Rightarrow> js_error" where
  "newError msg = \<lparr>status = None, code = None, type = None, message = msg\<rparr>"

text \<open>\<^verbatim>\<open>text.length\<close> counts UTF-16 code units.\<close>

definition utf16Length :: "string \<Rightarrow> nat" where
  "utf16Length s =
     length (filter (\<lambda>ch. \<not> (128 \<le> (of_char ch :: nat) \<and> (of_char ch :: nat) < 192)) s)
     + length (filter (\<lambda>ch. 240 \<le> (of_char ch :: nat)) s)"

definition estimateTokens :: "env \<Rightarrow> string \<Rightarrow> int" where
  "estimateTokens e text =
     (case encode e text of
        Some n \<Rightarrow> int n
      | None \<Rightarrow> int ((utf16Length text + 3) div 4))"

definition canUseProvider :: "LLMProvider \<Rightarrow> int \<Rightarrow> bool" where
  "canUseProvider p estimatedTokens =
     (tokens p + estimatedTokens \<le> tpm p \<and> requests p < rpm p)"

definition userUsageOf :: "RobustLLMService \<Rightarrow> string \<Rightarrow> UserUsage" where
  "userUsageOf s userId =
     (case userQuotas s userId of Some u \<Rightarrow> u | None \<Rightarrow> \<lparr>daily = 0, hourly = 0\<rparr>)"

text \<open>\<open>Some\<close> of the error thrown, \<open>None\<close> when the check passes.\<close>

definition checkUserQuota :: "RobustLLMService \<Rightarrow> string \<Rightarrow> int \<Rightarrow> js_error option" where
  "checkUserQuota s userId estimatedTokens =
     (let userUsage = userUsageOf s userId
      in if daily userUsage + estimatedTokens > 50000
         then Some (newError ''User daily quota exceeded'')
         else if hourly userUsage + estimatedTokens > 10000
         then Some (newError ''User hourly quota exceeded'')
         else None)"

text \<open>The provider is the element of \<^verbatim>\<open>this.providers\<close> at index \<open>i\<close>.\<close>

definition recordUsage_llm :: "nat \<Rightarrow> int \<Rightarrow> string \<Rightarrow> RobustLLMService \<Rightarrow> RobustLLMService" where
  "recordUsage_llm i used userId s =
     (let p = providers s ! i;
          userUsage = userUsageOf s userId
      in s\<lparr>providers := (providers s)[i := p\<lparr>tokens := tokens p + used,
                                                requests := requests p + 1\<rparr>],
            userQuotas := (userQuotas s)(userId \<mapsto>
                             \<lparr>daily = daily userUsage + used, hourly = hourly userUsage + used\<rparr>),
            trace := trace s @ [EvRecordUsage (name p) used userId]\<rparr>)"

definition isNonRetryableError :: "js_error \<Rightarrow> bool" where
  "isNonRetryableError error =
     (status error = Some 400 \<or> status error = Some 401 \<or> status error = Some 403
      \<or> code error = Some ''context_length_exceeded''
      \<or> type error = Some ''invalid_request_error'')"

text \<open>
  The delay of \<^verbatim>\<open>exponentialBackoff(attempt)\<close>, in milliseconds. The broker calls it with
  the length of a list it has just pushed to; for 0 the power is one half.
\<close>

definition backoffDelay :: "nat \<Rightarrow> nat" where
  "backoffDelay attempt =
     (if attempt = 0 then 500 else min (1000 * 2 ^ (attempt - 1)) 30000)"

definition exponentialBackoff :: "nat \<Rightarrow> RobustLLMService \<Rightarrow> RobustLLMService" where
  "exponentialBackoff attempt s =
     s\<lparr>clock := clock s + int (backoffDelay attempt),
       trace := trace s @ [EvBackoff (backoffDelay attempt)]\<rparr>"

subsection \<open>Provider calls\<close>

text \<open>
  Both methods throw when their client is missing; otherwise they call the SDK and build
  the object \<^verbatim>\<open>{content, tokensUsed, cost}\<close> from its answer.
\<close>

definition completion ::
  "(js_error + string \<times> int \<times> real) \<times> nat \<Rightarrow> (js_error + LLMResponse) \<times> nat" where
  "completion r =
     (case fst r of
        Inl error \<Rightarrow> (Inl error, snd r)
      | Inr (text, used, price) \<Rightarrow>
          (Inr \<lparr>content = text, tokensUsed = used, cost = price,
                provider = None, processingTime = None\<rparr>, snd r))"

definition executeOpenAIRequest ::
  "env \<Rightarrow> RobustLLMService \<Rightarrow> LLMRequest \<Rightarrow> (js_error + LLMResponse) \<times> nat" where
  "executeOpenAIRequest e s request =
     (if \<not> openaiClient s then (Inl (newError ''OpenAI client not initialized''), 0)
      else completion (complete e ''openai'' request))"

definition executeAnthropicRequest ::
  "env \<Rightarrow> RobustLLMService \<Rightarrow> LLMRequest \<Rightarrow> (js_error + LLMResponse) \<times> nat" where
  "executeAnthropicRequest e s request =
     (if \<not> anthropicClient s then (Inl (newError ''Anthropic client not initialized''), 0)
      else completion (complete e ''anthropic'' request))"

definition executeRequest ::
  "env \<Rightarrow> RobustLLMService \<Rightarrow> LLMRequest \<Rightarrow> string \<Rightarrow> (js_error + LLMResponse) \<times> nat" where
  "executeRequest e s request providerName =
     (if providerName = ''openai'' then executeOpenAIRequest e s request
      else if providerName = ''anthropic'' then executeAnthropicRequest e s request
      else (Inl (newError (''Unsupported provider: '' @ providerName)), 0))"

subsection \<open>generateWithFallback\<close>

text \<open>
  \<open>attempt\<close> is the body of the \<^verbatim>\<open>try\<close> block for the provider at index \<open>i\<close>: it leaves
  by \<^verbatim>\<open>continue\<close>, by \<^verbatim>\<open>return\<close> or by a throw.
\<close>

datatype attempt_result = Skipped | Returned LLMResponse | Threw js_error

definition attempt ::
  "env \<Rightarrow> LLMRequest \<Rightarrow> string \<Rightarrow> int \<Rightarrow> int \<Rightarrow> nat \<Rightarrow> RobustLLMService
   \<Rightarrow> attempt_result \<times> RobustLLMService" where
  "attempt e request userId estimatedTokens startTime i s =
     (let p = providers s ! i in
      if \<not> canUseProvider p estimatedTokens
      then (Skipped, s\<lparr>trace := trace s @ [EvRateCheck (name p) False]\<rparr>)
      else
        let cacheKey = createCacheKey (numberToString e) request (name p);
            looked = get (clock s) (cache s) cacheKey;
            s1 = s\<lparr>cache := snd looked,
                   trace := trace s @ [EvRateCheck (name p) True, EvCacheGet cacheKey]\<rparr>
        in case fst looked of
             Some cached \<Rightarrow> (Returned (cached\<lparr>provider := Some (name p)\<rparr>), s1)
           | None \<Rightarrow>
               (let outcome = executeRequest e s1 request (name p);
                    s2 = s1\<lparr>clock := clock s1 + int (snd outcome),
                            trace := trace s1 @ [EvExecute (name p)]\<rparr>
                in (case fst outcome of
                      Inl error \<Rightarrow> (Threw error, s2)
                    | Inr response \<Rightarrow>
                        (let s3 = recordUsage_llm i (tokensUsed response) userId s2;
                             s4 = s3\<lparr>cache := set_entry (clock s3) (cache s3) cacheKey response
                                                 (Some 3600),
                                     trace := trace s3 @ [EvCacheSet cacheKey]\<rparr>
                         in (Returned (response\<lparr>provider := Some (name p),
                                                processingTime := Some (clock s4 - startTime)\<rparr>),
                             s4)))))"

definition throwAggregate ::
  "(string \<times> js_error) list \<Rightarrow> RobustLLMService \<Rightarrow> (thrown + LLMResponse) \<times> RobustLLMService" where
  "throwAggregate errors s =
     (Inl (AggregateError (map snd errors)
             (''All LLM providers failed. Tried: '' @ joinWith '', '' (map fst errors))), s)"

text \<open>
  The loop over the indices that are left, with the errors caught so far. A caught error
  is pushed and logged; a non-retryable one leaves the loop, any other is followed by the
  backoff and the next provider.
\<close>

fun tryProviders ::
  "env \<Rightarrow> LLMRequest \<Rightarrow> string \<Rightarrow> int \<Rightarrow> int \<Rightarrow> nat list \<Rightarrow> (string \<times> js_error) list
   \<Rightarrow> RobustLLMService \<Rightarrow> (thrown + LLMResponse) \<times> RobustLLMService" where
  "tryProviders e request userId estimatedTokens startTime [] errors s = throwAggregate errors s"
| "tryProviders e request userId estimatedTokens startTime (i # rest) errors s =
     (case attempt e request userId estimatedTokens startTime i s of
        (Skipped, s1) \<Rightarrow> tryProviders e request userId estimatedTokens startTime rest errors s1
      | (Returned response, s1) \<Rightarrow> (Inr response, s1)
      | (Threw error, s1) \<Rightarrow>
          (let errors1 = errors @ [(name (providers s1 ! i), error)];
               s2 = s1\<lparr>trace := trace s1 @ [EvFailed (name (providers s1 ! i)) error]\<rparr>
           in if isNonRetryableError error then throwAggregate errors1 s2
              else tryProviders e request userId estimatedTokens startTime rest errors1
                     (exponentialBackoff (length errors1) s2)))"

text \<open>
  \<^verbatim>\<open>this.providers.sort(...)\<close> sorts the array in place, by priority, keeping the order
  of providers of equal priority.
\<close>

definition generateWithFallback ::
  "env \<Rightarrow> LLMRequest \<Rightarrow> string \<Rightarrow> RobustLLMService
   \<Rightarrow> (thrown + LLMResponse) \<times> RobustLLMService" where
  "generateWithFallback e request userId s =
     (let startTime = clock s;
          estimatedTokens = estimateTokens e (prompt request)
      in case checkUserQuota s userId estimatedTokens of
           Some error \<Rightarrow> (Inl (Thrown error), s)
         | None \<Rightarrow>
             (let s1 = s\<lparr>providers := sort_key priority (providers s)\<rparr>
              in tryProviders e request userId estimatedTokens startTime
                   [0..<length (providers s1)] [] s1))"

text \<open>The providers the constructor builds when both API keys are present.\<close>

definition initialProviders :: "LLMProvider list" where
  "initialProviders =
     [\<lparr>name = ''openai'', priority = 1, rpm = 3500, tpm = 200000, requests = 0, tokens = 0\<rparr>,
      \<lparr>name = ''anthropic'', priority = 2, rpm = 2000, tpm = 150000, requests = 0, tokens = 0\<rparr>]"

definition newService :: "int \<Rightarrow> RobustLLMService" where
  "newService now =
     \<lparr>providers = initialProviders, openaiClient = True, anthropicClient = True,
      cache = emptyCache, userQuotas = (\<lambda>u. None), clock = now, trace = []\<rparr>"

section \<open>Reading a request's trace\<close>

text \<open>The cache key of the provider at index \<open>i\<close>, as \<open>attempt\<close> computes it.\<close>

definition keyOf :: "env \<Rightarrow> LLMRequest \<Rightarrow> RobustLLMService \<Rightarrow> nat \<Rightarrow> string" where
  "keyOf e request s i = createCacheKey (numberToString e) request (name (providers s ! i))"

text \<open>
  The failed attempts recorded in a list of events, oldest first, and the events that
  charge: the recording of usage and the cache write.
\<close>

fun failures :: "event list \<Rightarrow> (string \<times> js_error) list" where
  "failures [] = []"
| "failures (EvFailed n err # evs) = (n, err) # failures evs"
| "failures (ev # evs) = failures evs"

fun isCharge :: "event \<Rightarrow> bool" where
  "isCharge (EvRecordUsage n used userId) = True"
| "isCharge (EvCacheSet k) = True"
| "isCharge ev = False"

text \<open>The error \<^verbatim>\<open>generateWithFallback\<close> throws after the loop, for the errors it has caught.\<close>

definition aggregateOf :: "(string \<times> js_error) list \<Rightarrow> thrown" where
  "aggregateOf errors =
     AggregateError (map snd errors)
       (''All LLM providers failed. Tried: '' @ joinWith '', '' (map fst errors))"

text \<open>
  \<open>evictedOnly now c c'\<close>: the cache \<open>c'\<close> is \<open>c\<close> without some entries that are expired
  at \<open>now\<close>. \<open>unchargedRun\<close>: between two states of the service nothing was charged, the
  providers and the per-caller counters are the same and the cache has only lost expired
  entries. \<open>chargedOnce\<close>: the events end with a provider call that succeeded, followed by
  the recording of its usage and the cache write, nothing is charged before, and the
  response is the one of that call.
\<close>

definition evictedOnly :: "int \<Rightarrow> 'v CacheManager \<Rightarrow> 'v CacheManager \<Rightarrow> bool" where
  "evictedOnly now c c' =
     (cacheConfig c' = cacheConfig c \<and>
      (\<forall>k. memoryCache c' k = memoryCache c k
           \<or> (memoryCache c' k = None \<and> (\<exists>en. memoryCache c k = Some en \<and> isExpired now en))))"

definition unchargedRun :: "RobustLLMService \<Rightarrow> RobustLLMService \<Rightarrow> event list \<Rightarrow> bool" where
  "unchargedRun s s' evs =
     (filter isCharge evs = [] \<and> providers s' = providers s \<and> userQuotas s' = userQuotas s
      \<and> clock s \<le> clock s' \<and> evictedOnly (clock s') (cache s) (cache s'))"

definition chargedOnce ::
  "env \<Rightarrow> LLMRequest \<Rightarrow> string \<Rightarrow> RobustLLMService \<Rightarrow> LLMResponse \<Rightarrow> event list \<Rightarrow> bool" where
  "chargedOnce e request userId s r evs =
     (\<exists>pre n resp k.
        evs = pre @ [EvExecute n, EvRecordUsage n (tokensUsed resp) userId, EvCacheSet k]
        \<and> filter isCharge pre = []
        \<and> fst (executeRequest e s request n) = Inr resp
        \<and> provider r = Some n \<and> content r = content resp
        \<and> tokensUsed r = tokensUsed resp \<and> cost r = cost resp)"

text \<open>
  \<open>sched due k evs\<close> reads a list of events after \<open>k\<close> failures: a failure with a
  non-retryable error is the last event, any other failure is directly followed by the
  backoff of the count of failures so far, and there is no other backoff. \<open>due\<close> says
  that the next event has to be that backoff.
\<close>

fun sched :: "bool \<Rightarrow> nat \<Rightarrow> event list \<Rightarrow> bool" where
  "sched due k [] = (\<not> due)"
| "sched due k (ev # evs) =
     (if due then ev = EvBackoff (backoffDelay k) \<and> sched False k evs
      else (case ev of
              EvFailed n err \<Rightarrow>
                if isNonRetryableError err then evs = [] else sched True (Suc k) evs
            | EvBackoff d \<Rightarrow> False
            | _ \<Rightarrow> sched False k evs))"

text \<open>
  \<open>outcomeOf\<close> is what the call of a provider throws or returns. \<open>failedCalls out evs\<close>
  lists the provider calls among the events that throw, with the error thrown, where
  \<open>out\<close> gives the outcome of a call by the provider's name. \<open>answered out userId pending evs\<close>
  reads a list of events: every provider call is directly followed by the warning for its
  error when it throws and by the recording of its usage when it returns, and there is no
  other warning. \<open>pending\<close> is the provider called by the previous event, if it was a call.
\<close>

definition outcomeOf :: "env \<Rightarrow> RobustLLMService \<Rightarrow> LLMRequest \<Rightarrow> string \<Rightarrow> js_error + LLMResponse" where
  "outcomeOf e s request n = fst (executeRequest e s request n)"

fun failedCalls :: "(string \<Rightarrow> js_error + LLMResponse) \<Rightarrow> event list \<Rightarrow> (string \<times> js_error) list" where
  "failedCalls out [] = []"
| "failedCalls out (EvExecute n # evs) =
     (case out n of
        Inl err \<Rightarrow> (n, err) # failedCalls out evs
      | Inr response \<Rightarrow> failedCalls out evs)"
| "failedCalls out (ev # evs) = failedCalls out evs"

fun answered ::
  "(string \<Rightarrow> js_error + LLMResponse) \<Rightarrow> string \<Rightarrow> string option \<Rightarrow> event list \<Rightarrow> bool" where
  "answered out userId pending [] = (pending = None)"
| "answered out userId pending (ev # evs) =
     (case pending of
        Some n \<Rightarrow>
          (case out n of
             Inl err \<Rightarrow> ev = EvFailed n err
           | Inr response \<Rightarrow> ev = EvRecordUsage n (tokensUsed response) userId)
          \<and> answered out userId None evs
      | None \<Rightarrow>
          (case ev of
             EvExecute n \<Rightarrow> answered out userId (Some n) evs
           | EvFailed n err \<Rightarrow> False
           | _ \<Rightarrow> answered out userId None evs))"

definition pendingFailure ::
  "(string \<Rightarrow> js_error + LLMResponse) \<Rightarrow> string option \<Rightarrow> (string \<times> js_error) list" where
  "pendingFailure out pending =
     (case pending of
        None \<Rightarrow> []
      | Some n \<Rightarrow> (case out n of Inl err \<Rightarrow> [(n, err)] | Inr response \<Rightarrow> []))"

section \<open>Concrete inputs\<close>

text \<open>Ledgers and a call sequence.\<close>

definition tightLedger :: ledger where
  "tightLedger = newQuotaManager 0 (defaultQuotaConfig 500) emptyCache"

definition exampleLedger :: ledger where
  "exampleLedger = newQuotaManager 0 (defaultQuotaConfig 8000) emptyCache"

definition exampleOps :: "(int \<times> quota_op) list" where
  "exampleOps = [(10, CanPerformOperation 6900), (20, RecordUsage 6900 ''search''),
                 (30, CanPerformOperation 150), (40, CanPerformOperation 50),
                 (50, RecordUsage 50 ''video_details'')]"

definition busyManager :: QuotaManager where
  "busyManager = \<lparr>usage = 6500, config = defaultQuotaConfig 8000, resetTime = 111600000\<rparr>"

definition spentManager :: QuotaManager where
  "spentManager = \<lparr>usage = 6950, config = defaultQuotaConfig 8000, resetTime = 111600000\<rparr>"

definition exampleCache :: "string CacheManager" where
  "exampleCache = set_entry 0 emptyCache ''search:abc'' ''videos'' None"

text \<open>
  A request, errors a provider may answer with, and surroundings in which the providers
  fail or answer as named. \<open>baseEnv\<close> fixes a tokenizer and a rendering of numbers.
\<close>

definition exampleRequest :: LLMRequest where
  "exampleRequest = \<lparr>prompt = ''Hi there'', model = None, maxTokens = None,
                      temperature = None, responseFormat = None\<rparr>"

definition unauthorized :: js_error where
  "unauthorized = \<lparr>status = Some 401, code = Some ''invalid_api_key'',
                   type = Some ''authentication_error'', message = ''Incorrect API key provided''\<rparr>"

definition unavailable :: js_error where
  "unavailable = \<lparr>status = Some 503, code = None, type = Some ''server_error'',
                 message = ''Service unavailable''\<rparr>"

definition timedOut :: js_error where
  "timedOut = \<lparr>status = None, code = Some ''ETIMEDOUT'', type = None,
               message = ''Request timed out''\<rparr>"

definition baseEnv :: "(string \<Rightarrow> LLMRequest \<Rightarrow> (js_error + string \<times> int \<times> real) \<times> nat) \<Rightarrow> env" where
  "baseEnv call = \<lparr>encode = (\<lambda>text. Some ((length text + 3) div 4)),
                   numberToString = (\<lambda>x. ''0''), complete = call\<rparr>"

definition fatalEnv :: env where
  "fatalEnv = baseEnv (\<lambda>n r. if n = ''openai'' then (Inl unauthorized, 120)
                              else (Inr (''Hello!'', 42, 1 / 1000), 900))"

definition downEnv :: env where
  "downEnv = baseEnv (\<lambda>n r. if n = ''openai'' then (Inl unavailable, 150)
                             else (Inl timedOut, 120000))"

definition fallbackEnv :: env where
  "fallbackEnv = baseEnv (\<lambda>n r. if n = ''openai'' then (Inl unavailable, 150)
                                 else (Inr (''Hello!'', 42, 1 / 1000), 900))"

definition cachedResponse :: LLMResponse where
  "cachedResponse = \<lparr>content = ''Hello!'', tokensUsed = 42, cost = 1 / 1000,
                     provider = None, processingTime = None\<rparr>"

text \<open>The cache keys of the request for the two providers.\<close>

definition openaiKey :: string where
  "openaiKey = ''llm:eyJwcm9tcHQiOiJIaSB0aGVyZSIsInByb3ZpZGVyIjoib3Blbm''"

definition anthropicKey :: string where
  "anthropicKey = ''llm:eyJwcm9tcHQiOiJIaSB0aGVyZSIsInByb3ZpZGVyIjoiYW50aH''"

text \<open>The service after the runs evaluated below.\<close>

definition fatalOutcome :: RobustLLMService where
  "fatalOutcome = (newService 0)\<lparr>clock := 120,
      trace := [EvRateCheck ''openai'' True, EvCacheGet openaiKey, EvExecute ''openai'',
                EvFailed ''openai'' unauthorized]\<rparr>"

definition downOutcome :: RobustLLMService where
  "downOutcome = (newService 0)\<lparr>clock := 123150,
      trace := [EvRateCheck ''openai'' True, EvCacheGet openaiKey, EvExecute ''openai'',
                EvFailed ''openai'' unavailable, EvBackoff 1000,
                EvRateCheck ''anthropic'' True, EvCacheGet anthropicKey, EvExecute ''anthropic'',
                EvFailed ''anthropic'' timedOut, EvBackoff 2000]\<rparr>"

definition fallbackOutcome :: RobustLLMService where
  "fallbackOutcome = (newService 0)\<lparr>
      providers := [initialProviders ! 0, (initialProviders ! 1)\<lparr>tokens := 42, requests := 1\<rparr>],
      userQuotas := (\<lambda>u. None)(''alice'' \<mapsto> \<lparr>daily = 42, hourly = 42\<rparr>),
      cache := set_entry 2050 emptyCache anthropicKey cachedResponse (Some 3600),
      clock := 2050,
      trace := [EvRateCheck ''openai'' True, EvCacheGet openaiKey, EvExecute ''openai'',
                EvFailed ''openai'' unavailable, EvBackoff 1000,
                EvRateCheck ''anthropic'' True, EvCacheGet anthropicKey, EvExecute ''anthropic'',
                EvRecordUsage ''anthropic'' 42 ''alice'', EvCacheSet anthropicKey]\<rparr>"

text \<open>
  Services: with a cached answer for the request; the same with OpenAI alone and at its
  request limit; with OpenAI at its limit and an answer cached for Anthropic; with an
  expired cached answer; with a caller close to the hourly ceiling.
\<close>

definition warmService :: RobustLLMService where
  "warmService = (newService 5000)\<lparr>
      cache := set_entry 1000 emptyCache openaiKey cachedResponse (Some 3600)\<rparr>"

definition saturatedService :: RobustLLMService where
  "saturatedService = warmService\<lparr>
      providers := [(initialProviders ! 0)\<lparr>requests := 3500\<rparr>], anthropicClient := False\<rparr>"

definition busyService :: RobustLLMService where
  "busyService = (newService 5000)\<lparr>
      providers := [(initialProviders ! 1), (initialProviders ! 0)\<lparr>requests := 3500\<rparr>],
      cache := set_entry 1000 emptyCache anthropicKey cachedResponse (Some 3600)\<rparr>"

definition staleService :: RobustLLMService where
  "staleService = (newService 4000000)\<lparr>
      cache := set_entry 1000 emptyCache openaiKey cachedResponse (Some 3600)\<rparr>"

definition heavyService :: RobustLLMService where
  "heavyService = (newService 0)\<lparr>
      userQuotas := (\<lambda>u. None)(''alice'' \<mapsto> \<lparr>daily = 9999, hourly = 9999\<rparr>)\<rparr>"

text \<open>Two requests whose prompts share their first 36 characters, and providers that echo the prompt.\<close>

definition sharedPrefix :: string where
  "sharedPrefix = ''Summarize the following transcript: ''"

definition catsRequest :: LLMRequest where
  "catsRequest = \<lparr>prompt = sharedPrefix @ ''cats purr when they are content'',
                   model = Some ''gpt-4o'', maxTokens = Some 100, temperature = Some (1 / 10),
                   responseFormat = Some ''json''\<rparr>"

definition dogsRequest :: LLMRequest where
  "dogsRequest = \<lparr>prompt = sharedPrefix @ ''dogs bark at the mail carrier'',
                   model = None, maxTokens = Some 4000, temperature = None,
                   responseFormat = Some ''text''\<rparr>"

definition echoEnv :: env where
  "echoEnv = baseEnv (\<lambda>n r. (Inr (''Answer to: '' @ prompt r, 10, 0), 5))"

definition sharedKey :: string where
  "sharedKey = ''llm:eyJwcm9tcHQiOiJTdW1tYXJpemUgdGhlIGZvbGxvd2luZyB0cm''"

section \<open>Properties of the quota ledger\<close>

lemma recordUsage_usage:
  "usage (fst (recordUsage now amount operation w)) = usage (fst w) + amount"
  by (simp add: recordUsage_def Let_def)

lemma recordUsage_config:
  "config (fst (recordUsage now amount operation w)) = config (fst w)"
  by (simp add: recordUsage_def Let_def)

lemma admitted_record_within:
  assumes "canPerformOperation (fst w) amount"
  shows "withinBudget (recordUsage t amount operation w)"
  using assms
  by (simp add: withinBudget_def canPerformOperation_def recordUsage_usage
      recordUsage_config Let_def)

lemma states_within:
  "admitted prev ops w \<Longrightarrow> withinBudget w \<Longrightarrow>
   (\<And>c. prev = Some c \<Longrightarrow> canPerformOperation (fst w) c) \<Longrightarrow>
   w' \<in> set (states ops w) \<Longrightarrow> withinBudget w'"
proof (induction prev ops w rule: admitted.induct)
  case (1 prev w)
  then show ?case by simp
next
  case (2 prev t amount ops w)
  let ?p = "if canPerformOperation (fst w) amount then Some amount else None"
  have adm: "admitted ?p ops w" using "2.prems"(1) by simp
  have can: "\<And>c. ?p = Some c \<Longrightarrow> canPerformOperation (fst w) c"
    by (simp split: if_splits)
  have mem: "w' = w \<or> w' \<in> set (states ops w)" using "2.prems"(4) by simp
  then show ?case
  proof
    assume "w' = w" then show ?thesis using "2.prems"(2) by simp
  next
    assume "w' \<in> set (states ops w)"
    then show ?thesis using "2.IH" [OF adm "2.prems"(2) can] by blast
  qed
next
  case (3 prev t amount operation ops w)
  have can: "canPerformOperation (fst w) amount" using "3.prems"(1,3) by simp
  have wb: "withinBudget (recordUsage t amount operation w)"
    by (rule admitted_record_within [OF can])
  have adm: "admitted None ops (recordUsage t amount operation w)" using "3.prems"(1) by simp
  have mem: "w' = recordUsage t amount operation w \<or> w' \<in> set (states ops (recordUsage t amount operation w))"
    using "3.prems"(4) by simp
  then show ?case
  proof
    assume "w' = recordUsage t amount operation w" then show ?thesis using wb by simp
  next
    assume "w' \<in> set (states ops (recordUsage t amount operation w))"
    then show ?thesis using "3.IH" [OF adm wb] by blast
  qed
qed


lemma states_append:
  "states (xs @ ys) w = states xs w @ states ys (last (w # states xs w))"
  by (induction xs arbitrary: w) simp_all

lemma admitted_append:
  "admitted prev (xs @ (t, RecordUsage amount operation) # ys) w \<Longrightarrow>
   (\<And>c. prev = Some c \<Longrightarrow> canPerformOperation (fst w) c) \<Longrightarrow>
   canPerformOperation (fst (last (w # states xs w))) amount \<and>
   admitted None ys (recordUsage t amount operation (last (w # states xs w)))"
proof (induction prev xs w rule: admitted.induct)
  case (1 prev w)
  then show ?case by simp
next
  case (2 prev t' amount' ops w)
  let ?p = "if canPerformOperation (fst w) amount' then Some amount' else None"
  have adm: "admitted ?p (ops @ (t, RecordUsage amount operation) # ys) w"
    using "2.prems"(1) by simp
  have can: "\<And>c. ?p = Some c \<Longrightarrow> canPerformOperation (fst w) c"
    by (simp split: if_splits)
  have "last (w # states ((t', CanPerformOperation amount') # ops) w) = last (w # states ops w)"
    by simp
  then show ?case using "2.IH" [OF adm can] by simp
next
  case (3 prev t' amount' operation' ops w)
  have adm: "admitted None (ops @ (t, RecordUsage amount operation) # ys)
               (recordUsage t' amount' operation' w)"
    using "3.prems"(1) by simp
  have "last (w # states ((t', RecordUsage amount' operation') # ops) w)
        = last (recordUsage t' amount' operation' w # states ops (recordUsage t' amount' operation' w))"
    by simp
  then show ?case using "3.IH" [OF adm] by simp
qed

lemma tightLedger_fst:
  "fst tightLedger = \<lparr>usage = 0, config = defaultQuotaConfig 500, resetTime = 111600000\<rparr>"
  by (simp add: tightLedger_def newQuotaManager_def getNextResetTime_def)

lemma exampleLedger_fst:
  "fst exampleLedger = \<lparr>usage = 0, config = defaultQuotaConfig 8000, resetTime = 111600000\<rparr>"
  by (simp add: exampleLedger_def newQuotaManager_def getNextResetTime_def)

lemma exampleOps_admitted: "admitted None exampleOps exampleLedger"
  by (simp add: exampleOps_def canPerformOperation_def exampleLedger_fst
      recordUsage_usage recordUsage_config defaultQuotaConfig_def)

text \<open>
  Claim C1, as stated: in every call sequence in which each \<^verbatim>\<open>recordUsage(cost, op)\<close>
  directly follows a \<^verbatim>\<open>canPerformOperation(cost)\<close> that returned true, the usage is at
  most \<^verbatim>\<open>dailyLimit - reserveBuffer\<close> at every point. It fails at the start of the
  sequence for a ledger whose reserve exceeds its limit: with \<^verbatim>\<open>MAX_DAILY_QUOTA=500\<close> the
  server builds the configuration 500/1000, the fresh ledger has usage 0 and the bound
  is -500. The sequence below is one refused check and no recording.
\<close>

theorem fresh_ledger_over_budget_counterexample:
  "admitted None [(0, CanPerformOperation 1)] tightLedger
   \<and> \<not> canPerformOperation (fst tightLedger) 1
   \<and> usage (fst tightLedger) = 0
   \<and> dailyLimit (config (fst tightLedger)) - reserveBuffer (config (fst tightLedger)) = - 500
   \<and> \<not> withinBudget tightLedger
   \<and> \<not> withinBudget (last (states [(0, CanPerformOperation 1)] tightLedger))"
  by (simp add: withinBudget_def canPerformOperation_def tightLedger_fst defaultQuotaConfig_def)

text \<open>
  Claim C1, amended: in every such sequence the usage is at most
  \<^verbatim>\<open>dailyLimit - reserveBuffer\<close> at every point from the first \<^verbatim>\<open>recordUsage\<close> on, and at
  every point of the sequence, the start included, when it is so at the start.
\<close>

theorem admitted_usage_within_budget:
  assumes "admitted None ops w"
  shows "(withinBudget w \<longrightarrow> (\<forall>w' \<in> set (w # states ops w). withinBudget w'))
       \<and> (\<forall>pre t amount operation post.
             ops = pre @ (t, RecordUsage amount operation) # post \<longrightarrow>
             (\<forall>w' \<in> set (states ((t, RecordUsage amount operation) # post)
                                 (last (w # states pre w))). withinBudget w'))"
proof (intro conjI impI allI ballI)
  fix w'
  assume wb: "withinBudget w" and mem: "w' \<in> set (w # states ops w)"
  from mem have "w' = w \<or> w' \<in> set (states ops w)" by simp
  then show "withinBudget w'"
  proof
    assume "w' = w" with wb show ?thesis by simp
  next
    assume "w' \<in> set (states ops w)"
    then show ?thesis using states_within [OF assms wb] by simp
  qed
next
  fix pre t amount operation post w'
  assume split: "ops = pre @ (t, RecordUsage amount operation) # post"
    and mem: "w' \<in> set (states ((t, RecordUsage amount operation) # post) (last (w # states pre w)))"
  let ?w0 = "last (w # states pre w)"
  let ?w1 = "recordUsage t amount operation ?w0"
  have "admitted None (pre @ (t, RecordUsage amount operation) # post) w"
    using assms split by simp
  then have can: "canPerformOperation (fst ?w0) amount" and adm: "admitted None post ?w1"
    using admitted_append [of None pre t amount operation post w] by simp_all
  have wb: "withinBudget ?w1" by (rule admitted_record_within [OF can])
  from mem have "w' = ?w1 \<or> w' \<in> set (states post ?w1)" by simp
  then show "withinBudget w'"
  proof
    assume "w' = ?w1" with wb show ?thesis by simp
  next
    assume "w' \<in> set (states post ?w1)"
    then show ?thesis using states_within [OF adm wb] by simp
  qed
qed

theorem admitted_usage_within_budget_witness:
  "admitted None exampleOps exampleLedger \<and> withinBudget exampleLedger
   \<and> list_all withinBudget (exampleLedger # states exampleOps exampleLedger)
   \<and> exampleOps = take 1 exampleOps @ (20, RecordUsage 6900 ''search'') # drop 2 exampleOps
   \<and> list_all withinBudget
         (states ((20, RecordUsage 6900 ''search'') # drop 2 exampleOps)
            (last (exampleLedger # states (take 1 exampleOps) exampleLedger)))"
proof -
  have wb: "withinBudget exampleLedger"
    by (simp add: withinBudget_def exampleLedger_fst defaultQuotaConfig_def)
  have sp: "exampleOps = take 1 exampleOps @ (20, RecordUsage 6900 ''search'') # drop 2 exampleOps"
    by (simp add: exampleOps_def)
  note th = admitted_usage_within_budget [OF exampleOps_admitted]
  from th wb have a: "\<forall>w' \<in> set (exampleLedger # states exampleOps exampleLedger). withinBudget w'"
    by blast
  from th sp have b: "\<forall>w' \<in> set (states ((20, RecordUsage 6900 ''search'') # drop 2 exampleOps)
        (last (exampleLedger # states (take 1 exampleOps) exampleLedger))). withinBudget w'"
    by blast
  from a have a': "list_all withinBudget (exampleLedger # states exampleOps exampleLedger)"
    unfolding list_all_iff .
  from b have b': "list_all withinBudget
         (states ((20, RecordUsage 6900 ''search'') # drop 2 exampleOps)
            (last (exampleLedger # states (take 1 exampleOps) exampleLedger)))"
    unfolding list_all_iff .
  from exampleOps_admitted wb a' sp b' show ?thesis by blast
qed

text \<open>
  Claim C3: \<^verbatim>\<open>canPerformOperation(cost)\<close> is true exactly when
  \<^verbatim>\<open>usage + cost \<le> dailyLimit - reserveBuffer\<close>; and on a fresh ledger with limit 8000 and
  reserve 1000, after \<^verbatim>\<open>recordUsage(6900, "x")\<close>, a cost of 50 is admitted and a cost of
  150 is not.
\<close>

theorem canPerformOperation_iff_budget:
  "(canPerformOperation q amount \<longleftrightarrow>
      usage q + amount \<le> dailyLimit (config q) - reserveBuffer (config q))
   \<and> canPerformOperation
         (fst (recordUsage now 6900 ''x'' (newQuotaManager now0 (defaultQuotaConfig 8000) emptyCache))) 50
   \<and> \<not> canPerformOperation
         (fst (recordUsage now 6900 ''x'' (newQuotaManager now0 (defaultQuotaConfig 8000) emptyCache))) 150"
  by (simp add: canPerformOperation_def recordUsage_usage recordUsage_config
      newQuotaManager_def defaultQuotaConfig_def)

theorem canPerformOperation_iff_budget_witness:
  "canPerformOperation busyManager 500 \<and> \<not> canPerformOperation busyManager 501"
proof -
  have "canPerformOperation busyManager 500 \<longleftrightarrow>
        usage busyManager + 500 \<le> dailyLimit (config busyManager) - reserveBuffer (config busyManager)"
    using canPerformOperation_iff_budget [of busyManager 500] by blast
  moreover have "canPerformOperation busyManager 501 \<longleftrightarrow>
        usage busyManager + 501 \<le> dailyLimit (config busyManager) - reserveBuffer (config busyManager)"
    using canPerformOperation_iff_budget [of busyManager 501] by blast
  ultimately show ?thesis by (simp add: busyManager_def defaultQuotaConfig_def)
qed

lemma percentageOver_int:
  "0 < dailyLimit (config q) \<Longrightarrow>
   percentageOver q 80 \<longleftrightarrow> 80 * dailyLimit (config q) < 100 * usage q"
proof -
  assume pos: "0 < dailyLimit (config q)"
  let ?d = "real_of_int (dailyLimit (config q))" and ?u = "real_of_int (usage q)"
  have dpos: "0 < ?d" using pos by simp
  have "percentageOver q 80 \<longleftrightarrow> 80 < ?u / ?d * 100"
    using pos by (simp add: percentageOver_def)
  also have "\<dots> \<longleftrightarrow> 80 * ?d < 100 * ?u"
    using dpos by (simp add: pos_less_divide_eq mult.commute)
  also have "\<dots> \<longleftrightarrow> real_of_int (80 * dailyLimit (config q)) < real_of_int (100 * usage q)"
    by simp
  also have "\<dots> \<longleftrightarrow> 80 * dailyLimit (config q) < 100 * usage q"
    by (rule of_int_less_iff)
  finally show ?thesis .
qed

text \<open>
  Claim C7: with \<open>available = max 0 (dailyLimit - reserveBuffer - usage)\<close>,
  \<^verbatim>\<open>optimizeOperation(kind, requestedCount)\<close> returns 0 when the unit cost of the kind
  exceeds \<open>available\<close>; otherwise, for \<^verbatim>\<open>video_details\<close> and \<^verbatim>\<open>channel_details\<close> it returns
  the smaller of \<open>requestedCount\<close> and \<open>available div unitCost\<close> (the same value as in
  the first case when the count is not negative), for \<^verbatim>\<open>search\<close> and \<^verbatim>\<open>channel_search\<close> it
  returns the smaller of \<open>requestedCount\<close> and 5 once the usage is above 80 percent of the
  daily limit, and \<open>requestedCount\<close> in every other case. The daily limit is positive.
\<close>

theorem optimizeOperation_postcondition:
  fixes q :: QuotaManager and kind :: string and requestedCount :: int
  defines "available \<equiv> max 0 (dailyLimit (config q) - reserveBuffer (config q) - usage q)"
  assumes pos: "0 < dailyLimit (config q)"
  shows "(\<forall>unitCost. getOperationCost kind = Some unitCost \<and> available < unitCost \<longrightarrow>
            optimizeOperation q kind requestedCount = 0)
     \<and> (\<forall>unitCost. (kind = ''video_details'' \<or> kind = ''channel_details'') \<and>
            getOperationCost kind = Some unitCost \<and> (unitCost \<le> available \<or> 0 \<le> requestedCount) \<longrightarrow>
            optimizeOperation q kind requestedCount = min requestedCount (available div unitCost))
     \<and> (\<forall>unitCost. (kind = ''search'' \<or> kind = ''channel_search'') \<and>
            getOperationCost kind = Some unitCost \<and> unitCost \<le> available \<longrightarrow>
            optimizeOperation q kind requestedCount =
              (if 80 * dailyLimit (config q) < 100 * usage q then min requestedCount 5
               else requestedCount))
     \<and> (kind \<notin> {''video_details'', ''channel_details'', ''search'', ''channel_search''} \<and>
          (\<forall>unitCost. getOperationCost kind = Some unitCost \<longrightarrow> unitCost \<le> available) \<longrightarrow>
            optimizeOperation q kind requestedCount = requestedCount)"
proof -
  have av: "getAvailableQuota q = available"
    by (simp add: getAvailableQuota_def available_def Let_def)
  note pct = percentageOver_int [OF pos]
  have c1: "\<forall>unitCost. getOperationCost kind = Some unitCost \<and> available < unitCost \<longrightarrow>
            optimizeOperation q kind requestedCount = 0"
    by (simp add: optimizeOperation_def av Let_def)
  have c2: "\<forall>unitCost. (kind = ''video_details'' \<or> kind = ''channel_details'') \<and>
            getOperationCost kind = Some unitCost \<and> (unitCost \<le> available \<or> 0 \<le> requestedCount) \<longrightarrow>
            optimizeOperation q kind requestedCount = min requestedCount (available div unitCost)"
  proof (intro allI impI)
    fix unitCost
    assume h: "(kind = ''video_details'' \<or> kind = ''channel_details'') \<and>
            getOperationCost kind = Some unitCost \<and> (unitCost \<le> available \<or> 0 \<le> requestedCount)"
    then have u1: "unitCost = 1" by (auto simp: getOperationCost_def)
    have a0: "0 \<le> available" by (simp add: available_def)
    show "optimizeOperation q kind requestedCount = min requestedCount (available div unitCost)"
    proof (cases "unitCost \<le> available")
      case True
      then show ?thesis using h by (auto simp: optimizeOperation_def av Let_def)
    next
      case False
      then have "available = 0" using u1 a0 by simp
      moreover have "0 \<le> requestedCount" using h False by simp
      ultimately show ?thesis using h u1 by (auto simp: optimizeOperation_def av Let_def)
    qed
  qed
  have c3: "\<forall>unitCost. (kind = ''search'' \<or> kind = ''channel_search'') \<and>
            getOperationCost kind = Some unitCost \<and> unitCost \<le> available \<longrightarrow>
            optimizeOperation q kind requestedCount =
              (if 80 * dailyLimit (config q) < 100 * usage q then min requestedCount 5
               else requestedCount)"
    by (auto simp: optimizeOperation_def av Let_def pct)
  have c4: "kind \<notin> {''video_details'', ''channel_details'', ''search'', ''channel_search''} \<and>
          (\<forall>unitCost. getOperationCost kind = Some unitCost \<longrightarrow> unitCost \<le> available) \<longrightarrow>
            optimizeOperation q kind requestedCount = requestedCount"
    by (auto simp: optimizeOperation_def av Let_def split: option.splits)
  from c1 c2 c3 c4 show ?thesis by blast
qed

theorem optimizeOperation_postcondition_witness:
  "0 < dailyLimit (config busyManager) \<and> 0 < dailyLimit (config spentManager)
   \<and> getOperationCost ''search'' = Some 100 \<and> getOperationCost ''video_details'' = Some 1
   \<and> getOperationCost ''trending'' = Some 1
   \<and> optimizeOperation spentManager ''search'' 50 = 0
   \<and> optimizeOperation busyManager ''video_details'' 1000 = 500
   \<and> optimizeOperation busyManager ''search'' 50 = 5
   \<and> optimizeOperation busyManager ''trending'' 50 = 50"
proof -
  have pb: "0 < dailyLimit (config busyManager)" and ps: "0 < dailyLimit (config spentManager)"
    by (simp_all add: busyManager_def spentManager_def defaultQuotaConfig_def)
  have cs: "getOperationCost ''search'' = Some 100" and cv: "getOperationCost ''video_details'' = Some 1"
    and ct: "getOperationCost ''trending'' = Some 1"
    by (simp_all add: getOperationCost_def inheritedKeys_def)
  have "optimizeOperation spentManager ''search'' 50 = 0"
    using optimizeOperation_postcondition [OF ps, of "''search''" 50] cs
    by (simp add: spentManager_def defaultQuotaConfig_def)
  moreover have "optimizeOperation busyManager ''video_details'' 1000 = 500"
    using optimizeOperation_postcondition [OF pb, of "''video_details''" 1000] cv
    by (simp add: busyManager_def defaultQuotaConfig_def)
  moreover have "optimizeOperation busyManager ''search'' 50 = 5"
    using optimizeOperation_postcondition [OF pb, of "''search''" 50] cs
    by (simp add: busyManager_def defaultQuotaConfig_def)
  moreover have "optimizeOperation busyManager ''trending'' 50 = 50"
    using optimizeOperation_postcondition [OF pb, of "''trending''" 50] ct
    by (simp add: busyManager_def defaultQuotaConfig_def)
  ultimately show ?thesis using pb ps cs cv ct by blast
qed

section \<open>Properties of the response cache\<close>

text \<open>
  Claim C6: for a positive \<open>t\<close>, \<^verbatim>\<open>set(f, v, t)\<close> followed by \<^verbatim>\<open>get(f)\<close> at the same
  instant, or at any later instant up to \<open>t\<close> seconds after it, returns \<open>v\<close>, and after
  more than \<open>t\<close> seconds returns nothing; a \<^verbatim>\<open>get(f)\<close> made when the entry under \<open>f\<close> is
  older than its time to live returns nothing and removes the entry; whatever \<^verbatim>\<open>get\<close>
  returns is the payload of an entry that is not expired.
\<close>

theorem cache_roundtrip_and_expiry:
  fixes c :: "'v CacheManager"
  shows "(0 < t \<longrightarrow> get now (set_entry now c f v (Some t)) f = (Some v, set_entry now c f v (Some t)))
   \<and> (0 < t \<and> now \<le> now' \<and> now' - now \<le> t * 1000 \<longrightarrow>
        fst (get now' (set_entry now c f v (Some t)) f) = Some v)
   \<and> (0 < t \<and> now' - now > t * 1000 \<longrightarrow>
        fst (get now' (set_entry now c f v (Some t)) f) = None)
   \<and> (\<forall>e. memoryCache c f = Some e \<and> now - timestamp e > ttl e * 1000 \<longrightarrow>
        fst (get now c f) = None \<and> memoryCache (snd (get now c f)) f = None)
   \<and> (\<forall>x. fst (get now c f) = Some x \<longrightarrow>
        (\<exists>e. memoryCache c f = Some e \<and> data e = x \<and> now - timestamp e \<le> ttl e * 1000))"
proof -
  have a: "0 < t \<longrightarrow> get now (set_entry now c f v (Some t)) f = (Some v, set_entry now c f v (Some t))"
    by (simp add: get_def set_entry_def isExpired_def Let_def)
  have b: "0 < t \<and> now \<le> now' \<and> now' - now \<le> t * 1000 \<longrightarrow>
        fst (get now' (set_entry now c f v (Some t)) f) = Some v"
    by (simp add: get_def set_entry_def isExpired_def Let_def)
  have c: "0 < t \<and> now' - now > t * 1000 \<longrightarrow>
        fst (get now' (set_entry now c f v (Some t)) f) = None"
    by (simp add: get_def set_entry_def isExpired_def Let_def)
  have d: "\<forall>e. memoryCache c f = Some e \<and> now - timestamp e > ttl e * 1000 \<longrightarrow>
        fst (get now c f) = None \<and> memoryCache (snd (get now c f)) f = None"
    by (simp add: get_def isExpired_def)
  have e: "\<forall>x. fst (get now c f) = Some x \<longrightarrow>
        (\<exists>e. memoryCache c f = Some e \<and> data e = x \<and> now - timestamp e \<le> ttl e * 1000)"
    by (auto simp: get_def isExpired_def split: option.splits if_splits)
  from a b c d e show ?thesis by blast
qed

lemma exampleCache_entry:
  "memoryCache exampleCache ''search:abc'' = Some \<lparr>data = ''videos'', timestamp = 0, ttl = 1800\<rparr>"
  by (simp add: exampleCache_def set_entry_def emptyCache_def getDefaultTTL_def startsWith_def)

theorem cache_roundtrip_and_expiry_witness:
  "get 5000 (set_entry 5000 exampleCache ''llm:abc'' ''text'' (Some 3600)) ''llm:abc''
     = (Some ''text'', set_entry 5000 exampleCache ''llm:abc'' ''text'' (Some 3600))
   \<and> fst (get 3605000 (set_entry 5000 exampleCache ''llm:abc'' ''text'' (Some 3600)) ''llm:abc'')
     = Some ''text''
   \<and> memoryCache exampleCache ''search:abc'' = Some \<lparr>data = ''videos'', timestamp = 0, ttl = 1800\<rparr>
   \<and> fst (get 1799000 exampleCache ''search:abc'') = Some ''videos''
   \<and> fst (get 1801000 exampleCache ''search:abc'') = None
   \<and> memoryCache (snd (get 1801000 exampleCache ''search:abc'')) ''search:abc'' = None"
proof -
  have a: "get 5000 (set_entry 5000 exampleCache ''llm:abc'' ''text'' (Some 3600)) ''llm:abc''
     = (Some ''text'', set_entry 5000 exampleCache ''llm:abc'' ''text'' (Some 3600))"
    using cache_roundtrip_and_expiry [of 3600 5000 exampleCache "''llm:abc''" "''text''"]
    by simp
  have b: "fst (get 3605000 (set_entry 5000 exampleCache ''llm:abc'' ''text'' (Some 3600)) ''llm:abc'')
     = Some ''text''"
    using cache_roundtrip_and_expiry [of 3600 5000 exampleCache "''llm:abc''" "''text''" 3605000]
    by simp
  have c: "fst (get 1801000 exampleCache ''search:abc'') = None
     \<and> memoryCache (snd (get 1801000 exampleCache ''search:abc'')) ''search:abc'' = None"
    using cache_roundtrip_and_expiry [of _ 1801000 exampleCache "''search:abc''"] exampleCache_entry
    by simp
  have d: "fst (get 1799000 exampleCache ''search:abc'') = Some ''videos''"
    by (simp add: get_def exampleCache_entry isExpired_def)
  from a b c d exampleCache_entry show ?thesis by blast
qed

section \<open>Properties of the broker\<close>

subsection \<open>One iteration of the loop\<close>

lemma attempt_Skipped:
  "\<not> canUseProvider (providers s ! i) est \<Longrightarrow>
   attempt e request userId est startTime i s
     = (Skipped, s\<lparr>trace := trace s @ [EvRateCheck (name (providers s ! i)) False]\<rparr>)"
  by (simp add: attempt_def Let_def)

lemma attempt_hit:
  "canUseProvider (providers s ! i) est \<Longrightarrow>
   get (clock s) (cache s) (keyOf e request s i) = (Some cached, c1) \<Longrightarrow>
   attempt e request userId est startTime i s
     = (Returned (cached\<lparr>provider := Some (name (providers s ! i))\<rparr>),
        s\<lparr>cache := c1,
          trace := trace s @ [EvRateCheck (name (providers s ! i)) True,
                              EvCacheGet (keyOf e request s i)]\<rparr>)"
  by (simp add: attempt_def Let_def keyOf_def)

lemma get_hit_unchanged: "get now c k = (Some v, c1) \<Longrightarrow> c1 = c"
  by (auto simp: get_def split: option.splits if_splits)

lemma executeRequest_indep:
  "openaiClient s1 = openaiClient s \<Longrightarrow> anthropicClient s1 = anthropicClient s \<Longrightarrow>
   executeRequest e s1 request n = executeRequest e s request n"
  by (simp add: executeRequest_def executeOpenAIRequest_def executeAnthropicRequest_def)

lemma attempt_threw:
  "canUseProvider (providers s ! i) est \<Longrightarrow>
   get (clock s) (cache s) (keyOf e request s i) = (None, c1) \<Longrightarrow>
   executeRequest e s request (name (providers s ! i)) = (Inl err, ms) \<Longrightarrow>
   attempt e request userId est startTime i s
     = (Threw err,
        s\<lparr>cache := c1, clock := clock s + int ms,
          trace := trace s @ [EvRateCheck (name (providers s ! i)) True,
                              EvCacheGet (keyOf e request s i),
                              EvExecute (name (providers s ! i))]\<rparr>)"
  by (simp add: attempt_def Let_def keyOf_def
      executeRequest_indep [of "s\<lparr>cache := c1, trace := t\<rparr>" s for t])

lemma attempt_fresh:
  "canUseProvider (providers s ! i) est \<Longrightarrow>
   get (clock s) (cache s) (keyOf e request s i) = (None, c1) \<Longrightarrow>
   executeRequest e s request (name (providers s ! i)) = (Inr response, ms) \<Longrightarrow>
   attempt e request userId est startTime i s
     = (Returned (response\<lparr>provider := Some (name (providers s ! i)),
                            processingTime := Some (clock s + int ms - startTime)\<rparr>),
        s\<lparr>providers := (providers s)[i := (providers s ! i)
               \<lparr>tokens := tokens (providers s ! i) + tokensUsed response,
                requests := requests (providers s ! i) + 1\<rparr>],
          userQuotas := (userQuotas s)(userId \<mapsto>
               \<lparr>daily = daily (userUsageOf s userId) + tokensUsed response,
                hourly = hourly (userUsageOf s userId) + tokensUsed response\<rparr>),
          cache := set_entry (clock s + int ms) c1 (keyOf e request s i) response (Some 3600),
          clock := clock s + int ms,
          trace := trace s @ [EvRateCheck (name (providers s ! i)) True,
                              EvCacheGet (keyOf e request s i),
                              EvExecute (name (providers s ! i)),
                              EvRecordUsage (name (providers s ! i)) (tokensUsed response) userId,
                              EvCacheSet (keyOf e request s i)]\<rparr>)"
  by (simp add: attempt_def Let_def keyOf_def recordUsage_llm_def userUsageOf_def
      executeRequest_indep [of "s\<lparr>cache := c1, trace := t\<rparr>" s for t])

lemma tryProviders_skip:
  "\<forall>i \<in> set xs. \<not> canUseProvider (providers s ! i) est \<Longrightarrow>
   tryProviders e request userId est startTime (xs @ ys) errs s
     = tryProviders e request userId est startTime ys errs
         (s\<lparr>trace := trace s @ map (\<lambda>i. EvRateCheck (name (providers s ! i)) False) xs\<rparr>)"
proof (induction xs arbitrary: s)
  case Nil
  then show ?case by simp
next
  case (Cons i xs)
  let ?s1 = "s\<lparr>trace := trace s @ [EvRateCheck (name (providers s ! i)) False]\<rparr>"
  have no: "\<not> canUseProvider (providers s ! i) est" using Cons.prems by simp
  have rest: "\<forall>j \<in> set xs. \<not> canUseProvider (providers ?s1 ! j) est" using Cons.prems by simp
  have "tryProviders e request userId est startTime ((i # xs) @ ys) errs s
        = tryProviders e request userId est startTime (xs @ ys) errs ?s1"
    by (simp add: attempt_Skipped [OF no])
  also have "\<dots> = tryProviders e request userId est startTime ys errs
         (?s1\<lparr>trace := trace ?s1 @ map (\<lambda>i. EvRateCheck (name (providers ?s1 ! i)) False) xs\<rparr>)"
    by (rule Cons.IH [OF rest])
  finally show ?case by simp
qed

lemma tryProviders_Cons_cases:
  fixes e request userId est startTime i rest errs s
  defines "n \<equiv> name (providers s ! i)"
  defines "k \<equiv> keyOf e request s i"
  defines "c1 \<equiv> snd (get (clock s) (cache s) k)"
  defines "ms \<equiv> snd (executeRequest e s request n)"
  defines "run \<equiv> tryProviders e request userId est startTime"
  obtains
    (skip) "\<not> canUseProvider (providers s ! i) est"
      "run (i # rest) errs s = run rest errs (s\<lparr>trace := trace s @ [EvRateCheck n False]\<rparr>)"
  | (hit) cached where "canUseProvider (providers s ! i) est"
      "get (clock s) (cache s) k = (Some cached, cache s)"
      "run (i # rest) errs s
         = (Inr (cached\<lparr>provider := Some n\<rparr>),
            s\<lparr>trace := trace s @ [EvRateCheck n True, EvCacheGet k]\<rparr>)"
  | (fresh) response where "canUseProvider (providers s ! i) est"
      "fst (get (clock s) (cache s) k) = None"
      "fst (executeRequest e s request n) = Inr response"
      "run (i # rest) errs s
         = (Inr (response\<lparr>provider := Some n,
                          processingTime := Some (clock s + int ms - startTime)\<rparr>),
            s\<lparr>providers := (providers s)[i := (providers s ! i)
                   \<lparr>tokens := tokens (providers s ! i) + tokensUsed response,
                    requests := requests (providers s ! i) + 1\<rparr>],
              userQuotas := (userQuotas s)(userId \<mapsto>
                   \<lparr>daily = daily (userUsageOf s userId) + tokensUsed response,
                    hourly = hourly (userUsageOf s userId) + tokensUsed response\<rparr>),
              cache := set_entry (clock s + int ms) c1 k response (Some 3600),
              clock := clock s + int ms,
              trace := trace s @ [EvRateCheck n True, EvCacheGet k, EvExecute n,
                                  EvRecordUsage n (tokensUsed response) userId,
                                  EvCacheSet k]\<rparr>)"
  | (fatal) err where "canUseProvider (providers s ! i) est"
      "fst (get (clock s) (cache s) k) = None"
      "fst (executeRequest e s request n) = Inl err" "isNonRetryableError err"
      "run (i # rest) errs s
         = throwAggregate (errs @ [(n, err)])
            (s\<lparr>cache := c1, clock := clock s + int ms,
               trace := trace s @ [EvRateCheck n True, EvCacheGet k, EvExecute n,
                                   EvFailed n err]\<rparr>)"
  | (retry) err where "canUseProvider (providers s ! i) est"
      "fst (get (clock s) (cache s) k) = None"
      "fst (executeRequest e s request n) = Inl err" "\<not> isNonRetryableError err"
      "run (i # rest) errs s
         = run rest (errs @ [(n, err)])
            (s\<lparr>cache := c1,
               clock := clock s + int ms + int (backoffDelay (Suc (length errs))),
               trace := trace s @ [EvRateCheck n True, EvCacheGet k, EvExecute n,
                                   EvFailed n err,
                                   EvBackoff (backoffDelay (Suc (length errs)))]\<rparr>)"
proof (cases "canUseProvider (providers s ! i) est")
  case False
  then have "run (i # rest) errs s = run rest errs (s\<lparr>trace := trace s @ [EvRateCheck n False]\<rparr>)"
    by (simp add: run_def n_def attempt_Skipped)
  with False show ?thesis by (rule skip)
next
  case can: True
  show ?thesis
  proof (cases "fst (get (clock s) (cache s) k)")
    case (Some cached)
    then have g: "get (clock s) (cache s) (keyOf e request s i) = (Some cached, c1)"
      by (simp add: c1_def k_def prod_eq_iff)
    have c: "c1 = cache s" by (rule get_hit_unchanged [OF g])
    have "run (i # rest) errs s
         = (Inr (cached\<lparr>provider := Some n\<rparr>),
            s\<lparr>trace := trace s @ [EvRateCheck n True, EvCacheGet k]\<rparr>)"
      by (simp add: run_def attempt_hit [OF can g] c n_def k_def)
    with can g c show ?thesis using hit by (simp add: k_def)
  next
    case None
    then have g: "get (clock s) (cache s) (keyOf e request s i) = (None, c1)"
      by (simp add: c1_def k_def prod_eq_iff)
    show ?thesis
    proof (cases "fst (executeRequest e s request n)")
      case (Inr response)
      then have x: "executeRequest e s request (name (providers s ! i)) = (Inr response, ms)"
        by (simp add: ms_def n_def prod_eq_iff)
      have "run (i # rest) errs s
         = (Inr (response\<lparr>provider := Some n,
                          processingTime := Some (clock s + int ms - startTime)\<rparr>),
            s\<lparr>providers := (providers s)[i := (providers s ! i)
                   \<lparr>tokens := tokens (providers s ! i) + tokensUsed response,
                    requests := requests (providers s ! i) + 1\<rparr>],
              userQuotas := (userQuotas s)(userId \<mapsto>
                   \<lparr>daily = daily (userUsageOf s userId) + tokensUsed response,
                    hourly = hourly (userUsageOf s userId) + tokensUsed response\<rparr>),
              cache := set_entry (clock s + int ms) c1 k response (Some 3600),
              clock := clock s + int ms,
              trace := trace s @ [EvRateCheck n True, EvCacheGet k, EvExecute n,
                                  EvRecordUsage n (tokensUsed response) userId,
                                  EvCacheSet k]\<rparr>)"
        by (simp add: run_def attempt_fresh [OF can g x] n_def k_def)
      with can None Inr show ?thesis by (rule fresh)
    next
      case (Inl err)
      then have x: "executeRequest e s request (name (providers s ! i)) = (Inl err, ms)"
        by (simp add: ms_def n_def prod_eq_iff)
      note at = attempt_threw [OF can g x, of userId startTime]
      show ?thesis
      proof (cases "isNonRetryableError err")
        case True
        have "run (i # rest) errs s
         = throwAggregate (errs @ [(n, err)])
            (s\<lparr>cache := c1, clock := clock s + int ms,
               trace := trace s @ [EvRateCheck n True, EvCacheGet k, EvExecute n,
                                   EvFailed n err]\<rparr>)"
          using True by (simp add: run_def at n_def k_def Let_def)
        with can None Inl True show ?thesis by (rule fatal)
      next
        case False
        have "run (i # rest) errs s
         = run rest (errs @ [(n, err)])
            (s\<lparr>cache := c1,
               clock := clock s + int ms + int (backoffDelay (Suc (length errs))),
               trace := trace s @ [EvRateCheck n True, EvCacheGet k, EvExecute n,
                                   EvFailed n err,
                                   EvBackoff (backoffDelay (Suc (length errs)))]\<rparr>)"
          using False by (simp add: run_def at n_def k_def Let_def exponentialBackoff_def)
        with can None Inl False show ?thesis by (rule retry)
      qed
    qed
  qed
qed

subsection \<open>Invariants of the loop\<close>

lemma failures_append: "failures (xs @ ys) = failures xs @ failures ys"
  by (induction xs rule: failures.induct) simp_all

lemma isExpired_mono: "isExpired now en \<Longrightarrow> now \<le> now' \<Longrightarrow> isExpired now' en"
  by (simp add: isExpired_def)

lemma evictedOnly_refl: "evictedOnly now c c"
  by (simp add: evictedOnly_def)

lemma evictedOnly_get: "evictedOnly now c (snd (get now c k))"
  by (auto simp: evictedOnly_def get_def split: option.splits)

lemma evictedOnly_mono: "evictedOnly now a b \<Longrightarrow> now \<le> now' \<Longrightarrow> evictedOnly now' a b"
  unfolding evictedOnly_def using isExpired_mono by blast

lemma evictedOnly_lookup:
  assumes ev: "evictedOnly t c c'" and le: "t \<le> now"
  shows "fst (get now c' k) = fst (get now c k)"
proof (cases "memoryCache c' k = memoryCache c k")
  case True
  then show ?thesis by (simp add: get_def split: option.splits)
next
  case False
  with ev obtain en where n: "memoryCache c' k = None"
    and e: "memoryCache c k = Some en" and x: "isExpired t en"
    unfolding evictedOnly_def by blast
  from x le have "isExpired now en" by (rule isExpired_mono)
  with n e show ?thesis by (simp add: get_def)
qed

lemma evictedOnly_trans:
  assumes ab: "evictedOnly now a b" and bc: "evictedOnly now b c"
  shows "evictedOnly now a c"
proof -
  have cfg: "cacheConfig c = cacheConfig a" using ab bc by (simp add: evictedOnly_def)
  have "memoryCache c k = memoryCache a k
        \<or> (memoryCache c k = None \<and> (\<exists>en. memoryCache a k = Some en \<and> isExpired now en))" for k
  proof -
    from ab have 1: "memoryCache b k = memoryCache a k
        \<or> (memoryCache b k = None \<and> (\<exists>en. memoryCache a k = Some en \<and> isExpired now en))"
      by (simp add: evictedOnly_def)
    from bc have 2: "memoryCache c k = memoryCache b k
        \<or> (memoryCache c k = None \<and> (\<exists>en. memoryCache b k = Some en \<and> isExpired now en))"
      by (simp add: evictedOnly_def)
    show ?thesis
    proof (cases "memoryCache b k = memoryCache a k")
      case True
      then show ?thesis using 2 by simp
    next
      case False
      with 1 obtain en where bn: "memoryCache b k = None"
        and ae: "memoryCache a k = Some en" and ex: "isExpired now en" by blast
      from 2 bn have "memoryCache c k = None" by auto
      with ae ex show ?thesis by simp
    qed
  qed
  with cfg show ?thesis by (simp add: evictedOnly_def)
qed

lemma tryProviders_failure:
  "tryProviders e request userId est startTime is errs s = (Inl x, s') \<Longrightarrow>
   providers s' = providers s \<and> userQuotas s' = userQuotas s \<and> clock s \<le> clock s'
   \<and> evictedOnly (clock s') (cache s) (cache s')
   \<and> (\<exists>evs. trace s' = trace s @ evs \<and> \<not> list_ex isCharge evs
            \<and> x = aggregateOf (errs @ failures evs))"
proof (induction "is" arbitrary: errs s)
  case Nil
  then have "s' = s" and "x = aggregateOf errs"
    by (simp_all add: throwAggregate_def aggregateOf_def)
  then show ?case by (simp add: evictedOnly_refl)
next
  case (Cons i rest)
  let ?n = "name (providers s ! i)" and ?k = "keyOf e request s i"
  let ?c1 = "snd (get (clock s) (cache s) ?k)"
  let ?ms = "snd (executeRequest e s request ?n)"
  show ?case
  proof (cases rule: tryProviders_Cons_cases
      [where e = e and request = request and userId = userId and est = est
         and startTime = startTime and i = i and rest = rest and errs = errs and s = s])
    case skip
    let ?s1 = "s\<lparr>trace := trace s @ [EvRateCheck ?n False]\<rparr>"
    from skip Cons.prems
    have "tryProviders e request userId est startTime rest errs ?s1 = (Inl x, s')" by simp
    from Cons.IH [OF this] obtain evs where
      a: "providers s' = providers s" "userQuotas s' = userQuotas s" "clock s \<le> clock s'"
         "evictedOnly (clock s') (cache s) (cache s')"
      and b: "trace s' = trace ?s1 @ evs" "\<not> list_ex isCharge evs"
             "x = aggregateOf (errs @ failures evs)"
      by auto
    have "trace s' = trace s @ (EvRateCheck ?n False # evs)" using b by simp
    moreover have "\<not> list_ex isCharge (EvRateCheck ?n False # evs)" using b by simp
    moreover have "x = aggregateOf (errs @ failures (EvRateCheck ?n False # evs))" using b by simp
    ultimately show ?thesis using a by blast
  next
    case (hit cached)
    with Cons.prems show ?thesis by simp
  next
    case (fresh response)
    with Cons.prems show ?thesis by simp
  next
    case (fatal err)
    let ?evs = "[EvRateCheck ?n True, EvCacheGet ?k, EvExecute ?n, EvFailed ?n err]"
    let ?s2 = "s\<lparr>cache := ?c1, clock := clock s + int ?ms, trace := trace s @ ?evs\<rparr>"
    from fatal Cons.prems have "throwAggregate (errs @ [(?n, err)]) ?s2 = (Inl x, s')" by simp
    then have s': "s' = ?s2" and x: "x = aggregateOf (errs @ [(?n, err)])"
      by (simp_all add: throwAggregate_def aggregateOf_def)
    have ev: "evictedOnly (clock s') (cache s) (cache s')"
      using evictedOnly_mono [OF evictedOnly_get, of "clock s" "clock s + int ?ms" "cache s" ?k]
      by (simp add: s')
    have "trace s' = trace s @ ?evs" by (simp add: s')
    moreover have "\<not> list_ex isCharge ?evs" by simp
    moreover have "x = aggregateOf (errs @ failures ?evs)" by (simp add: x)
    ultimately have "\<exists>evs. trace s' = trace s @ evs \<and> \<not> list_ex isCharge evs
            \<and> x = aggregateOf (errs @ failures evs)" by blast
    then show ?thesis using ev by (simp add: s')
  next
    case (retry err)
    let ?d = "backoffDelay (Suc (length errs))"
    let ?evs = "[EvRateCheck ?n True, EvCacheGet ?k, EvExecute ?n, EvFailed ?n err, EvBackoff ?d]"
    let ?s2 = "s\<lparr>cache := ?c1, clock := clock s + int ?ms + int ?d, trace := trace s @ ?evs\<rparr>"
    from retry Cons.prems
    have "tryProviders e request userId est startTime rest (errs @ [(?n, err)]) ?s2 = (Inl x, s')"
      by simp
    from Cons.IH [OF this] obtain evs where
      a: "providers s' = providers s" "userQuotas s' = userQuotas s" "clock ?s2 \<le> clock s'"
         "evictedOnly (clock s') ?c1 (cache s')"
      and b: "trace s' = trace ?s2 @ evs" "\<not> list_ex isCharge evs"
             "x = aggregateOf ((errs @ [(?n, err)]) @ failures evs)"
      by auto
    have le: "clock s \<le> clock s'" using a(3) by simp
    have ev: "evictedOnly (clock s') (cache s) (cache s')"
      using evictedOnly_trans [OF evictedOnly_mono [OF evictedOnly_get le] a(4)] .
    have "trace s' = trace s @ (?evs @ evs)" using b by simp
    moreover have "\<not> list_ex isCharge (?evs @ evs)" using b by simp
    moreover have "x = aggregateOf (errs @ failures (?evs @ evs))" using b by simp
    ultimately have "\<exists>evs. trace s' = trace s @ evs \<and> \<not> list_ex isCharge evs
            \<and> x = aggregateOf (errs @ failures evs)" by blast
    then show ?thesis using a le ev by simp
  qed
qed

lemma tryProviders_sched:
  "tryProviders e request userId est startTime is errs s = (res, s') \<Longrightarrow>
   \<exists>evs. trace s' = trace s @ evs \<and> sched False (length errs) evs"
proof (induction "is" arbitrary: errs s)
  case Nil
  then have "s' = s" by (simp add: throwAggregate_def)
  then show ?case by simp
next
  case (Cons i rest)
  let ?n = "name (providers s ! i)" and ?k = "keyOf e request s i"
  show ?case
  proof (cases rule: tryProviders_Cons_cases
      [where e = e and request = request and userId = userId and est = est
         and startTime = startTime and i = i and rest = rest and errs = errs and s = s])
    case skip
    let ?s1 = "s\<lparr>trace := trace s @ [EvRateCheck ?n False]\<rparr>"
    from skip Cons.prems
    have "tryProviders e request userId est startTime rest errs ?s1 = (res, s')" by simp
    from Cons.IH [OF this] obtain evs where
      b: "trace s' = trace ?s1 @ evs" "sched False (length errs) evs" by auto
    have "trace s' = trace s @ (EvRateCheck ?n False # evs)" using b by simp
    moreover have "sched False (length errs) (EvRateCheck ?n False # evs)" using b by simp
    ultimately show ?thesis by blast
  next
    case (hit cached)
    with Cons.prems have "trace s' = trace s @ [EvRateCheck ?n True, EvCacheGet ?k]" by auto
    moreover have "sched False (length errs) [EvRateCheck ?n True, EvCacheGet ?k]" by simp
    ultimately show ?thesis by blast
  next
    case (fresh response)
    let ?evs = "[EvRateCheck ?n True, EvCacheGet ?k, EvExecute ?n,
                 EvRecordUsage ?n (tokensUsed response) userId, EvCacheSet ?k]"
    from fresh Cons.prems have "trace s' = trace s @ ?evs" by auto
    moreover have "sched False (length errs) ?evs" by simp
    ultimately show ?thesis by blast
  next
    case (fatal err)
    let ?evs = "[EvRateCheck ?n True, EvCacheGet ?k, EvExecute ?n, EvFailed ?n err]"
    from fatal Cons.prems have "trace s' = trace s @ ?evs" by (auto simp: throwAggregate_def)
    moreover have "sched False (length errs) ?evs" using fatal by simp
    ultimately show ?thesis by blast
  next
    case (retry err)
    let ?d = "backoffDelay (Suc (length errs))"
    let ?evs = "[EvRateCheck ?n True, EvCacheGet ?k, EvExecute ?n, EvFailed ?n err, EvBackoff ?d]"
    let ?s2 = "s\<lparr>cache := snd (get (clock s) (cache s) ?k),
                  clock := clock s + int (snd (executeRequest e s request ?n)) + int ?d,
                  trace := trace s @ ?evs\<rparr>"
    from retry Cons.prems
    have "tryProviders e request userId est startTime rest (errs @ [(?n, err)]) ?s2 = (res, s')"
      by simp
    from Cons.IH [OF this] obtain evs where
      b: "trace s' = trace ?s2 @ evs" "sched False (length (errs @ [(?n, err)])) evs" by auto
    have "trace s' = trace s @ (?evs @ evs)" using b by simp
    moreover have "sched False (length errs) (?evs @ evs)" using b retry by simp
    ultimately show ?thesis by blast
  qed
qed

lemma sched_backoff:
  "sched due k (pre @ EvBackoff d # post) \<Longrightarrow>
   d = backoffDelay (k + length (failures pre))
   \<and> (if pre = [] then due
      else \<exists>n err. last pre = EvFailed n err \<and> \<not> isNonRetryableError err)"
proof (induction pre arbitrary: due k)
  case Nil
  then show ?case by (simp split: if_splits)
next
  case (Cons ev pre)
  show ?case
  proof (cases due)
    case True
    with Cons.prems have ev: "ev = EvBackoff (backoffDelay k)"
      and r: "sched False k (pre @ EvBackoff d # post)" by simp_all
    note ih = Cons.IH [OF r]
    from ih have d: "d = backoffDelay (k + length (failures pre))" by simp
    from ih have ne: "pre \<noteq> []" by (cases "pre = []") simp_all
    from ih ne have l: "\<exists>n err. last pre = EvFailed n err \<and> \<not> isNonRetryableError err"
      by simp
    from ne l d ev show ?thesis by simp
  next
    case False
    show ?thesis
    proof (cases ev)
      case (EvFailed n err)
      with False Cons.prems have nf: "\<not> isNonRetryableError err"
        and r: "sched True (Suc k) (pre @ EvBackoff d # post)" by (simp_all split: if_splits)
      from Cons.IH [OF r] have d: "d = backoffDelay (Suc k + length (failures pre))"
        and l: "if pre = [] then True
                else \<exists>n err. last pre = EvFailed n err \<and> \<not> isNonRetryableError err" by simp_all
      show ?thesis using d l nf EvFailed by (cases "pre = []") simp_all
    next
      case (EvBackoff d')
      with False Cons.prems show ?thesis by simp
    next
      case (EvRateCheck n b)
      with False Cons.prems have r: "sched False k (pre @ EvBackoff d # post)" by simp
      from Cons.IH [OF r] show ?thesis using EvRateCheck by (auto split: if_splits)
    next
      case (EvCacheGet x)
      with False Cons.prems have r: "sched False k (pre @ EvBackoff d # post)" by simp
      from Cons.IH [OF r] show ?thesis using EvCacheGet by (auto split: if_splits)
    next
      case (EvExecute x)
      with False Cons.prems have r: "sched False k (pre @ EvBackoff d # post)" by simp
      from Cons.IH [OF r] show ?thesis using EvExecute by (auto split: if_splits)
    next
      case (EvRecordUsage x y z)
      with False Cons.prems have r: "sched False k (pre @ EvBackoff d # post)" by simp
      from Cons.IH [OF r] show ?thesis using EvRecordUsage by (auto split: if_splits)
    next
      case (EvCacheSet x)
      with False Cons.prems have r: "sched False k (pre @ EvBackoff d # post)" by simp
      from Cons.IH [OF r] show ?thesis using EvCacheSet by (auto split: if_splits)
    qed
  qed
qed

lemma sched_failed:
  "sched due k (pre @ EvFailed n err # post) \<Longrightarrow>
   (isNonRetryableError err \<longrightarrow> post = [])
   \<and> (\<not> isNonRetryableError err \<longrightarrow>
        (\<exists>post'. post = EvBackoff (backoffDelay (Suc (k + length (failures pre)))) # post'))
   \<and> (\<forall>x \<in> set (failures pre). \<not> isNonRetryableError (snd x))"
proof (induction pre arbitrary: due k)
  case Nil
  then show ?case by (cases post) (auto split: if_splits)
next
  case (Cons ev pre)
  show ?case
  proof (cases due)
    case True
    with Cons.prems have ev: "ev = EvBackoff (backoffDelay k)"
      and r: "sched False k (pre @ EvFailed n err # post)" by simp_all
    from Cons.IH [OF r] ev show ?thesis by simp
  next
    case False
    show ?thesis
    proof (cases ev)
      case (EvFailed n' err')
      with False Cons.prems have nf: "\<not> isNonRetryableError err'"
        and r: "sched True (Suc k) (pre @ EvFailed n err # post)" by (simp_all split: if_splits)
      from Cons.IH [OF r] nf EvFailed show ?thesis by simp
    next
      case (EvBackoff d')
      with False Cons.prems show ?thesis by simp
    next
      case (EvRateCheck x b)
      with False Cons.prems have r: "sched False k (pre @ EvFailed n err # post)" by simp
      from Cons.IH [OF r] show ?thesis using EvRateCheck by simp
    next
      case (EvCacheGet x)
      with False Cons.prems have r: "sched False k (pre @ EvFailed n err # post)" by simp
      from Cons.IH [OF r] show ?thesis using EvCacheGet by simp
    next
      case (EvExecute x)
      with False Cons.prems have r: "sched False k (pre @ EvFailed n err # post)" by simp
      from Cons.IH [OF r] show ?thesis using EvExecute by simp
    next
      case (EvRecordUsage x y z)
      with False Cons.prems have r: "sched False k (pre @ EvFailed n err # post)" by simp
      from Cons.IH [OF r] show ?thesis using EvRecordUsage by simp
    next
      case (EvCacheSet x)
      with False Cons.prems have r: "sched False k (pre @ EvFailed n err # post)" by simp
      from Cons.IH [OF r] show ?thesis using EvCacheSet by simp
    qed
  qed
qed

lemma executeRequest_clients:
  "openaiClient s2 = openaiClient s \<Longrightarrow> anthropicClient s2 = anthropicClient s \<Longrightarrow>
   executeRequest e s2 = executeRequest e s"
  by (simp add: fun_eq_iff executeRequest_def executeOpenAIRequest_def
      executeAnthropicRequest_def)

lemma chargedOnce_prepend:
  assumes "chargedOnce e request userId s2 r evs" and "filter isCharge xs = []"
    and "executeRequest e s2 = executeRequest e s"
  shows "chargedOnce e request userId s r (xs @ evs)"
proof -
  from assms(1) obtain pre n resp k where
    ev: "evs = pre @ [EvExecute n, EvRecordUsage n (tokensUsed resp) userId, EvCacheSet k]"
    and nc: "filter isCharge pre = []"
    and ex: "fst (executeRequest e s2 request n) = Inr resp"
    and r: "provider r = Some n" "content r = content resp"
           "tokensUsed r = tokensUsed resp" "cost r = cost resp"
    unfolding chargedOnce_def by blast
  have "xs @ evs = (xs @ pre) @ [EvExecute n, EvRecordUsage n (tokensUsed resp) userId, EvCacheSet k]"
    using ev by simp
  moreover have "filter isCharge (xs @ pre) = []" using nc assms(2) by simp
  moreover have "fst (executeRequest e s request n) = Inr resp" using ex assms(3) by simp
  ultimately show ?thesis unfolding chargedOnce_def using r by blast
qed

lemma tryProviders_success:
  "tryProviders e request userId est startTime is errs s = (Inr r, s') \<Longrightarrow>
   \<exists>evs. trace s' = trace s @ evs \<and> evs \<noteq> []
     \<and> ((\<exists>k. last evs = EvCacheGet k) \<and> unchargedRun s s' evs
        \<or> (\<exists>k. last evs = EvCacheSet k) \<and> chargedOnce e request userId s r evs)"
  (is "_ \<Longrightarrow> \<exists>evs. ?P s evs")
proof (induction "is" arbitrary: errs s)
  case Nil
  then show ?case by (simp add: throwAggregate_def)
next
  case (Cons i rest)
  let ?n = "name (providers s ! i)" and ?k = "keyOf e request s i"
  let ?c1 = "snd (get (clock s) (cache s) ?k)"
  let ?ms = "snd (executeRequest e s request ?n)"
  show ?case
  proof (cases rule: tryProviders_Cons_cases
      [where e = e and request = request and userId = userId and est = est
         and startTime = startTime and i = i and rest = rest and errs = errs and s = s])
    case skip
    let ?s1 = "s\<lparr>trace := trace s @ [EvRateCheck ?n False]\<rparr>"
    let ?x = "[EvRateCheck ?n False]"
    from skip Cons.prems
    have "tryProviders e request userId est startTime rest errs ?s1 = (Inr r, s')" by simp
    from Cons.IH [OF this] obtain evs where b: "?P ?s1 evs" by blast
    from b have tr: "trace s' = trace s @ (?x @ evs)" and ne: "evs \<noteq> []" by simp_all
    from b have "(\<exists>k. last evs = EvCacheGet k) \<and> unchargedRun ?s1 s' evs
        \<or> (\<exists>k. last evs = EvCacheSet k) \<and> chargedOnce e request userId ?s1 r evs" by blast
    then have "(\<exists>k. last (?x @ evs) = EvCacheGet k) \<and> unchargedRun s s' (?x @ evs)
        \<or> (\<exists>k. last (?x @ evs) = EvCacheSet k) \<and> chargedOnce e request userId s r (?x @ evs)"
    proof
      assume "(\<exists>k. last evs = EvCacheGet k) \<and> unchargedRun ?s1 s' evs"
      then have "(\<exists>k. last (?x @ evs) = EvCacheGet k) \<and> unchargedRun s s' (?x @ evs)"
        using ne by (simp add: unchargedRun_def)
      then show ?thesis ..
    next
      assume a: "(\<exists>k. last evs = EvCacheSet k) \<and> chargedOnce e request userId ?s1 r evs"
      then have "chargedOnce e request userId s r (?x @ evs)"
        by (intro chargedOnce_prepend [where ?s2.0 = ?s1] executeRequest_clients) simp_all
      with a ne have "(\<exists>k. last (?x @ evs) = EvCacheSet k) \<and> chargedOnce e request userId s r (?x @ evs)"
        by simp
      then show ?thesis ..
    qed
    with tr ne have "?P s (?x @ evs)" by simp
    then show ?thesis by blast
  next
    case (hit cached)
    let ?evs = "[EvRateCheck ?n True, EvCacheGet ?k]"
    from hit Cons.prems have s': "s' = s\<lparr>trace := trace s @ ?evs\<rparr>" by simp
    have "?P s ?evs" by (simp add: s' unchargedRun_def evictedOnly_refl)
    then show ?thesis by blast
  next
    case (fresh response)
    let ?pre = "[EvRateCheck ?n True, EvCacheGet ?k]"
    let ?tail = "[EvExecute ?n, EvRecordUsage ?n (tokensUsed response) userId, EvCacheSet ?k]"
    from fresh Cons.prems have s': "trace s' = trace s @ (?pre @ ?tail)"
      and r: "r = response\<lparr>provider := Some ?n,
                          processingTime := Some (clock s + int ?ms - startTime)\<rparr>"
      by auto
    have "?pre @ ?tail = ?pre @ ?tail \<and> filter isCharge ?pre = []
        \<and> fst (executeRequest e s request ?n) = Inr response
        \<and> provider r = Some ?n \<and> content r = content response
        \<and> tokensUsed r = tokensUsed response \<and> cost r = cost response"
      using fresh(3) r by simp
    then have "chargedOnce e request userId s r (?pre @ ?tail)"
      unfolding chargedOnce_def by blast
    then have "?P s (?pre @ ?tail)" using s' by simp
    then show ?thesis by blast
  next
    case (fatal err)
    with Cons.prems show ?thesis by (simp add: throwAggregate_def)
  next
    case (retry err)
    let ?d = "backoffDelay (Suc (length errs))"
    let ?x = "[EvRateCheck ?n True, EvCacheGet ?k, EvExecute ?n, EvFailed ?n err, EvBackoff ?d]"
    let ?s2 = "s\<lparr>cache := ?c1, clock := clock s + int ?ms + int ?d, trace := trace s @ ?x\<rparr>"
    from retry Cons.prems
    have run: "tryProviders e request userId est startTime rest (errs @ [(?n, err)]) ?s2 = (Inr r, s')"
      by simp
    from Cons.IH [OF this] obtain evs where b: "?P ?s2 evs" by blast
    from b have tr: "trace s' = trace s @ (?x @ evs)" and ne: "evs \<noteq> []" by simp_all
    from b have "(\<exists>k. last evs = EvCacheGet k) \<and> unchargedRun ?s2 s' evs
        \<or> (\<exists>k. last evs = EvCacheSet k) \<and> chargedOnce e request userId ?s2 r evs" by blast
    then have "(\<exists>k. last (?x @ evs) = EvCacheGet k) \<and> unchargedRun s s' (?x @ evs)
        \<or> (\<exists>k. last (?x @ evs) = EvCacheSet k) \<and> chargedOnce e request userId s r (?x @ evs)"
    proof
      assume a: "(\<exists>k. last evs = EvCacheGet k) \<and> unchargedRun ?s2 s' evs"
      then have u: "filter isCharge evs = []" "providers s' = providers s"
        "userQuotas s' = userQuotas s" "clock ?s2 \<le> clock s'"
        "evictedOnly (clock s') ?c1 (cache s')"
        by (simp_all add: unchargedRun_def)
      have le: "clock s \<le> clock s'" using u(4) by simp
      have ev: "evictedOnly (clock s') (cache s) (cache s')"
        using evictedOnly_trans [OF evictedOnly_mono [OF evictedOnly_get le] u(5)] .
      have "unchargedRun s s' (?x @ evs)"
        using u le ev by (simp add: unchargedRun_def)
      with a ne have "(\<exists>k. last (?x @ evs) = EvCacheGet k) \<and> unchargedRun s s' (?x @ evs)"
        by simp
      then show ?thesis ..
    next
      assume a: "(\<exists>k. last evs = EvCacheSet k) \<and> chargedOnce e request userId ?s2 r evs"
      then have "chargedOnce e request userId s r (?x @ evs)"
        by (intro chargedOnce_prepend [where ?s2.0 = ?s2] executeRequest_clients) simp_all
      with a ne have "(\<exists>k. last (?x @ evs) = EvCacheSet k) \<and> chargedOnce e request userId s r (?x @ evs)"
        by simp
      then show ?thesis ..
    qed
    with tr ne have "?P s (?x @ evs)" by simp
    then show ?thesis by blast
  qed
qed

lemma generateWithFallback_cases:
  obtains (denied) err where
      "checkUserQuota s userId (estimateTokens e (prompt request)) = Some err"
      "generateWithFallback e request userId s = (Inl (Thrown err), s)"
  | (admitted)
      "checkUserQuota s userId (estimateTokens e (prompt request)) = None"
      "generateWithFallback e request userId s
         = tryProviders e request userId (estimateTokens e (prompt request)) (clock s)
             [0..<length (providers s)] [] (s\<lparr>providers := sort_key priority (providers s)\<rparr>)"
proof (cases "checkUserQuota s userId (estimateTokens e (prompt request))")
  case None
  then have "generateWithFallback e request userId s
         = tryProviders e request userId (estimateTokens e (prompt request)) (clock s)
             [0..<length (providers s)] [] (s\<lparr>providers := sort_key priority (providers s)\<rparr>)"
    by (simp add: generateWithFallback_def Let_def)
  with None show ?thesis by (rule admitted)
next
  case (Some err)
  then have "generateWithFallback e request userId s = (Inl (Thrown err), s)"
    by (simp add: generateWithFallback_def Let_def)
  with Some show ?thesis by (rule denied)
qed

lemma generateWithFallback_sched:
  assumes "generateWithFallback e request userId s = (res, s')"
  shows "\<exists>evs. trace s' = trace s @ evs \<and> sched False 0 evs"
proof (cases rule: generateWithFallback_cases [of s userId e request])
  case (denied err)
  with assms have "trace s' = trace s @ []" by simp
  moreover have "sched False 0 []" by simp
  ultimately show ?thesis by blast
next
  case admitted
  with assms have "tryProviders e request userId (estimateTokens e (prompt request)) (clock s)
             [0..<length (providers s)] [] (s\<lparr>providers := sort_key priority (providers s)\<rparr>)
          = (res, s')" by simp
  from tryProviders_sched [OF this] show ?thesis by simp
qed

subsection \<open>Provider calls and what follows them\<close>

lemma outcomeOf_clients:
  "openaiClient s2 = openaiClient s \<Longrightarrow> anthropicClient s2 = anthropicClient s \<Longrightarrow>
   outcomeOf e s2 request = outcomeOf e s request"
  by (simp add: fun_eq_iff outcomeOf_def executeRequest_clients [of s2 s])

lemma answered_call_gen:
  "answered out userId pending (pre @ EvExecute n # post) \<Longrightarrow>
     failures pre = pendingFailure out pending @ failedCalls out pre
     \<and> (case out n of
        Inl err \<Rightarrow> \<exists>post'. post = EvFailed n err # post'
      | Inr response \<Rightarrow> \<exists>post'. post = EvRecordUsage n (tokensUsed response) userId # post')
     \<and> (pre = [] \<longrightarrow> pending = None)"
proof (induction pre arbitrary: pending)
  case Nil
  show ?case
  proof (cases pending)
    case None
    with Nil have a: "answered out userId (Some n) post" by simp
    then obtain ev evs where p: "post = ev # evs" by (cases post) simp_all
    with a show ?thesis using None
      by (cases "out n") (simp_all add: pendingFailure_def)
  next
    case (Some m)
    with Nil show ?thesis by (cases "out m") simp_all
  qed
next
  case (Cons ev pre)
  show ?case
  proof (cases pending)
    case (Some m)
    show ?thesis
    proof (cases "out m")
      case (Inl err)
      with Some Cons.prems have ev: "ev = EvFailed m err"
        and r: "answered out userId None (pre @ EvExecute n # post)" by simp_all
      from Cons.IH [OF r] ev Some Inl show ?thesis by (simp add: pendingFailure_def)
    next
      case (Inr response)
      with Some Cons.prems have ev: "ev = EvRecordUsage m (tokensUsed response) userId"
        and r: "answered out userId None (pre @ EvExecute n # post)" by simp_all
      from Cons.IH [OF r] ev Some Inr show ?thesis by (simp add: pendingFailure_def)
    qed
  next
    case None
    show ?thesis
    proof (cases ev)
      case (EvExecute m)
      with None Cons.prems have r: "answered out userId (Some m) (pre @ EvExecute n # post)"
        by simp
      from Cons.IH [OF r] EvExecute None show ?thesis
        by (cases "out m") (simp_all add: pendingFailure_def)
    next
      case (EvFailed m err)
      with None Cons.prems show ?thesis by simp
    next
      case (EvRateCheck x b)
      with None Cons.prems have r: "answered out userId None (pre @ EvExecute n # post)" by simp
      from Cons.IH [OF r] EvRateCheck None show ?thesis by (simp add: pendingFailure_def)
    next
      case (EvCacheGet x)
      with None Cons.prems have r: "answered out userId None (pre @ EvExecute n # post)" by simp
      from Cons.IH [OF r] EvCacheGet None show ?thesis by (simp add: pendingFailure_def)
    next
      case (EvRecordUsage x y z)
      with None Cons.prems have r: "answered out userId None (pre @ EvExecute n # post)" by simp
      from Cons.IH [OF r] EvRecordUsage None show ?thesis by (simp add: pendingFailure_def)
    next
      case (EvCacheSet x)
      with None Cons.prems have r: "answered out userId None (pre @ EvExecute n # post)" by simp
      from Cons.IH [OF r] EvCacheSet None show ?thesis by (simp add: pendingFailure_def)
    next
      case (EvBackoff d)
      with None Cons.prems have r: "answered out userId None (pre @ EvExecute n # post)" by simp
      from Cons.IH [OF r] EvBackoff None show ?thesis by (simp add: pendingFailure_def)
    qed
  qed
qed

lemma answered_call:
  assumes "answered out userId None (pre @ EvExecute n # post)"
  shows "failures pre = failedCalls out pre"
    and "out n = Inl err \<Longrightarrow> \<exists>post'. post = EvFailed n err # post'"
    and "out n = Inr response \<Longrightarrow>
         \<exists>post'. post = EvRecordUsage n (tokensUsed response) userId # post'"
  using answered_call_gen [OF assms] by (simp_all add: pendingFailure_def)

lemma tryProviders_fatal_step:
  assumes can: "canUseProvider (providers t ! i) est"
    and miss: "fst (get (clock t) (cache t) (keyOf e request t i)) = None"
    and threw: "fst (executeRequest e t request (name (providers t ! i))) = Inl err"
    and fatal: "isNonRetryableError err"
  shows "tryProviders e request userId est startTime (i # rest) errs t
         = (Inl (AggregateError (map snd errs @ [err])
                  (''All LLM providers failed. Tried: ''
                     @ joinWith '', '' (map fst errs @ [name (providers t ! i)]))),
            t\<lparr>cache := snd (get (clock t) (cache t) (keyOf e request t i)),
              clock := clock t + int (snd (executeRequest e t request (name (providers t ! i)))),
              trace := trace t @ [EvRateCheck (name (providers t ! i)) True,
                                  EvCacheGet (keyOf e request t i),
                                  EvExecute (name (providers t ! i)),
                                  EvFailed (name (providers t ! i)) err]\<rparr>)"
proof (cases rule: tryProviders_Cons_cases
      [where e = e and request = request and userId = userId and est = est
         and startTime = startTime and i = i and rest = rest and errs = errs and s = t])
  case skip
  with can show ?thesis by simp
next
  case (hit cached)
  with miss show ?thesis by simp
next
  case (fresh response)
  with threw show ?thesis by simp
next
  case (fatal err')
  with threw show ?thesis by (simp add: throwAggregate_def)
next
  case (retry err')
  with threw fatal show ?thesis by simp
qed

lemma tryProviders_retry_step:
  assumes can: "canUseProvider (providers t ! i) est"
    and miss: "fst (get (clock t) (cache t) (keyOf e request t i)) = None"
    and threw: "fst (executeRequest e t request (name (providers t ! i))) = Inl err"
    and retryable: "\<not> isNonRetryableError err"
  shows "tryProviders e request userId est startTime (i # rest) errs t
         = tryProviders e request userId est startTime rest
             (errs @ [(name (providers t ! i), err)])
             (t\<lparr>cache := snd (get (clock t) (cache t) (keyOf e request t i)),
                clock := clock t + int (snd (executeRequest e t request (name (providers t ! i))))
                         + int (min (1000 * 2 ^ length errs) 30000),
                trace := trace t @ [EvRateCheck (name (providers t ! i)) True,
                                    EvCacheGet (keyOf e request t i),
                                    EvExecute (name (providers t ! i)),
                                    EvFailed (name (providers t ! i)) err,
                                    EvBackoff (min (1000 * 2 ^ length errs) 30000)]\<rparr>)"
proof (cases rule: tryProviders_Cons_cases
      [where e = e and request = request and userId = userId and est = est
         and startTime = startTime and i = i and rest = rest and errs = errs and s = t])
  case skip
  with can show ?thesis by simp
next
  case (hit cached)
  with miss show ?thesis by simp
next
  case (fresh response)
  with threw show ?thesis by simp
next
  case (fatal err')
  with threw retryable show ?thesis by simp
next
  case (retry err')
  with threw show ?thesis by (simp add: backoffDelay_def)
qed

lemma tryProviders_answered:
  "tryProviders e request userId est startTime is errs s = (res, s') \<Longrightarrow>
   \<exists>evs. trace s' = trace s @ evs \<and> answered (outcomeOf e s request) userId None evs"
proof (induction "is" arbitrary: errs s)
  case Nil
  then have "s' = s" by (simp add: throwAggregate_def)
  then show ?case by simp
next
  case (Cons i rest)
  let ?n = "name (providers s ! i)" and ?k = "keyOf e request s i"
  let ?out = "outcomeOf e s request"
  show ?case
  proof (cases rule: tryProviders_Cons_cases
      [where e = e and request = request and userId = userId and est = est
         and startTime = startTime and i = i and rest = rest and errs = errs and s = s])
    case skip
    let ?s1 = "s\<lparr>trace := trace s @ [EvRateCheck ?n False]\<rparr>"
    have o: "outcomeOf e ?s1 request = ?out" by (rule outcomeOf_clients) simp_all
    from skip Cons.prems
    have "tryProviders e request userId est startTime rest errs ?s1 = (res, s')" by simp
    from Cons.IH [OF this] obtain evs where
      b: "trace s' = trace ?s1 @ evs" "answered ?out userId None evs" unfolding o by auto
    have "trace s' = trace s @ (EvRateCheck ?n False # evs)" using b by simp
    moreover have "answered ?out userId None (EvRateCheck ?n False # evs)" using b by simp
    ultimately show ?thesis by blast
  next
    case (hit cached)
    with Cons.prems have "trace s' = trace s @ [EvRateCheck ?n True, EvCacheGet ?k]" by auto
    moreover have "answered ?out userId None [EvRateCheck ?n True, EvCacheGet ?k]" by simp
    ultimately show ?thesis by blast
  next
    case (fresh response)
    let ?evs = "[EvRateCheck ?n True, EvCacheGet ?k, EvExecute ?n,
                 EvRecordUsage ?n (tokensUsed response) userId, EvCacheSet ?k]"
    from fresh Cons.prems have "trace s' = trace s @ ?evs" by auto
    moreover have "answered ?out userId None ?evs" using fresh(3) by (simp add: outcomeOf_def)
    ultimately show ?thesis by blast
  next
    case (fatal err)
    let ?evs = "[EvRateCheck ?n True, EvCacheGet ?k, EvExecute ?n, EvFailed ?n err]"
    from fatal Cons.prems have "trace s' = trace s @ ?evs" by (auto simp: throwAggregate_def)
    moreover have "answered ?out userId None ?evs" using fatal(3) by (simp add: outcomeOf_def)
    ultimately show ?thesis by blast
  next
    case (retry err)
    let ?d = "backoffDelay (Suc (length errs))"
    let ?evs = "[EvRateCheck ?n True, EvCacheGet ?k, EvExecute ?n, EvFailed ?n err, EvBackoff ?d]"
    let ?s2 = "s\<lparr>cache := snd (get (clock s) (cache s) ?k),
                  clock := clock s + int (snd (executeRequest e s request ?n)) + int ?d,
                  trace := trace s @ ?evs\<rparr>"
    have o: "outcomeOf e ?s2 request = ?out" by (rule outcomeOf_clients) simp_all
    from retry Cons.prems
    have "tryProviders e request userId est startTime rest (errs @ [(?n, err)]) ?s2 = (res, s')"
      by simp
    from Cons.IH [OF this] obtain evs where
      b: "trace s' = trace ?s2 @ evs" "answered ?out userId None evs" unfolding o by auto
    have "trace s' = trace s @ (?evs @ evs)" using b by simp
    moreover have "answered ?out userId None (?evs @ evs)"
      using b retry(3) by (simp add: outcomeOf_def)
    ultimately show ?thesis by blast
  qed
qed

lemma generateWithFallback_answered:
  assumes "generateWithFallback e request userId s = (res, s')"
  shows "\<exists>evs. trace s' = trace s @ evs \<and> answered (outcomeOf e s request) userId None evs"
proof (cases rule: generateWithFallback_cases [of s userId e request])
  case (denied err)
  with assms have "trace s' = trace s @ []" by simp
  moreover have "answered (outcomeOf e s request) userId None []" by simp
  ultimately show ?thesis by blast
next
  case admitted
  let ?s1 = "s\<lparr>providers := sort_key priority (providers s)\<rparr>"
  have o: "outcomeOf e ?s1 request = outcomeOf e s request"
    by (rule outcomeOf_clients) simp_all
  from admitted assms have "tryProviders e request userId (estimateTokens e (prompt request))
      (clock s) [0..<length (providers s)] [] ?s1 = (res, s')" by simp
  from tryProviders_answered [OF this] show ?thesis unfolding o by simp
qed

lemma fatal_failure_is_last_event:
  assumes run: "generateWithFallback e request userId s = (res, s')"
    and failed: "trace s' = trace s @ pre @ EvFailed n err # post"
    and fatal: "isNonRetryableError err"
  shows "post = []
     \<and> res = Inl (AggregateError (map snd (failures pre) @ [err])
                 (''All LLM providers failed. Tried: ''
                    @ joinWith '', '' (map fst (failures pre) @ [n])))
     \<and> (\<forall>x \<in> set (failures pre). \<not> isNonRetryableError (snd x))
     \<and> filter isCharge (pre @ EvFailed n err # post) = []
     \<and> providers s' = sort_key priority (providers s)
     \<and> userQuotas s' = userQuotas s"
proof (cases rule: generateWithFallback_cases [of s userId e request])
  case (denied err')
  with run have "trace s' = trace s" by simp
  with failed show ?thesis by simp
next
  case admitted
  let ?s1 = "s\<lparr>providers := sort_key priority (providers s)\<rparr>"
  let ?evs = "pre @ EvFailed n err # post"
  from admitted run have tp: "tryProviders e request userId (estimateTokens e (prompt request))
       (clock s) [0..<length (providers s)] [] ?s1 = (res, s')" by simp
  from tryProviders_sched [OF tp] failed have sc: "sched False 0 ?evs" by simp
  from sched_failed [OF sc] fatal have post: "post = []"
    and nf: "\<forall>x \<in> set (failures pre). \<not> isNonRetryableError (snd x)" by simp_all
  have last: "last ?evs = EvFailed n err" using post by simp
  obtain x where res: "res = Inl x"
  proof (cases res)
    case (Inl x)
    then show ?thesis by (rule that)
  next
    case (Inr r)
    with tp have "tryProviders e request userId (estimateTokens e (prompt request))
       (clock s) [0..<length (providers s)] [] ?s1 = (Inr r, s')" by simp
    from tryProviders_success [OF this] failed
    have "(\<exists>k. last ?evs = EvCacheGet k) \<or> (\<exists>k. last ?evs = EvCacheSet k)" by auto
    with last show ?thesis by simp
  qed
  from tp res have "tryProviders e request userId (estimateTokens e (prompt request))
       (clock s) [0..<length (providers s)] [] ?s1 = (Inl x, s')" by simp
  from tryProviders_failure [OF this] failed
  have p: "providers s' = sort_key priority (providers s)" and u: "userQuotas s' = userQuotas s"
    and nc: "\<not> list_ex isCharge ?evs" and x: "x = aggregateOf ([] @ failures ?evs)"
    by auto
  from nc have nc': "filter isCharge ?evs = []"
    by (simp add: list_ex_iff filter_empty_conv)
  have "failures ?evs = failures pre @ [(n, err)]"
    using post by (simp add: failures_append)
  with x res have "res = Inl (AggregateError (map snd (failures pre) @ [err])
                 (''All LLM providers failed. Tried: ''
                    @ joinWith '', '' (map fst (failures pre) @ [n])))"
    by (simp add: aggregateOf_def)
  with post nf nc' p u show ?thesis by blast
qed

lemma backoff_events:
  assumes run: "generateWithFallback e request userId s = (res, s')"
  shows "(\<forall>pre d post. trace s' = trace s @ pre @ EvBackoff d # post \<longrightarrow>
            1 \<le> length (failures pre)
            \<and> d = min (1000 * 2 ^ (length (failures pre) - 1)) 30000
            \<and> pre \<noteq> [] \<and> (\<exists>n err. last pre = EvFailed n err \<and> \<not> isNonRetryableError err)
            \<and> filter (\<lambda>x. isNonRetryableError (snd x)) (failures pre) = [])
       \<and> (\<forall>pre n err post. trace s' = trace s @ pre @ EvFailed n err # post
              \<and> \<not> isNonRetryableError err \<longrightarrow>
            (\<exists>post'. post = EvBackoff (min (1000 * 2 ^ length (failures pre)) 30000) # post'))
       \<and> (\<forall>n t. 1 \<le> n \<longrightarrow>
            clock (exponentialBackoff n t) = clock t + int (min (1000 * 2 ^ (n - 1)) 30000))"
proof -
  from generateWithFallback_sched [OF run] obtain evs where
    tr: "trace s' = trace s @ evs" and sc: "sched False 0 evs" by blast
  have a: "1 \<le> length (failures pre)
            \<and> d = min (1000 * 2 ^ (length (failures pre) - 1)) 30000
            \<and> pre \<noteq> [] \<and> (\<exists>n err. last pre = EvFailed n err \<and> \<not> isNonRetryableError err)
            \<and> filter (\<lambda>x. isNonRetryableError (snd x)) (failures pre) = []"
    if h: "trace s' = trace s @ pre @ EvBackoff d # post" for pre d post
  proof -
    from h tr have "evs = pre @ EvBackoff d # post" by simp
    with sc have "sched False 0 (pre @ EvBackoff d # post)" by simp
    note ih = sched_backoff [OF this]
    from ih have d: "d = backoffDelay (length (failures pre))" by simp
    from ih have ne: "pre \<noteq> []" by (cases "pre = []") simp_all
    with ih obtain n err where last: "last pre = EvFailed n err" "\<not> isNonRetryableError err"
      by auto
    from ne last have bl: "pre = butlast pre @ [EvFailed n err]"
      by (metis append_butlast_last_id)
    then have fa: "failures pre = failures (butlast pre) @ [(n, err)]"
      by (metis failures_append failures.simps(1,2))
    then have pos: "1 \<le> length (failures pre)" by simp
    from bl sc \<open>evs = pre @ EvBackoff d # post\<close>
    have "sched False 0 (butlast pre @ EvFailed n err # EvBackoff d # post)"
      by (metis append.assoc append_Cons append_Nil)
    from sched_failed [OF this]
    have "\<forall>x \<in> set (failures (butlast pre)). \<not> isNonRetryableError (snd x)" by simp
    with fa last have retry: "filter (\<lambda>x. isNonRetryableError (snd x)) (failures pre) = []"
      by (simp add: filter_empty_conv)
    from pos have "length (failures pre) \<noteq> 0" by linarith
    with d have "d = min (1000 * 2 ^ (length (failures pre) - 1)) 30000"
      unfolding backoffDelay_def by (simp only: if_False)
    with pos ne last retry show ?thesis by blast
  qed
  have b: "\<exists>post'. post = EvBackoff (min (1000 * 2 ^ length (failures pre)) 30000) # post'"
    if h: "trace s' = trace s @ pre @ EvFailed n err # post \<and> \<not> isNonRetryableError err"
    for pre n err post
  proof -
    from h tr have "evs = pre @ EvFailed n err # post" by simp
    with sc have "sched False 0 (pre @ EvFailed n err # post)" by simp
    from sched_failed [OF this] h show ?thesis by (simp add: backoffDelay_def)
  qed
  have c: "clock (exponentialBackoff n t) = clock t + int (min (1000 * 2 ^ (n - 1)) 30000)"
    if "1 \<le> n" for n t
    using that by (simp add: exponentialBackoff_def backoffDelay_def)
  from a b c show ?thesis by blast
qed

section \<open>Evaluated runs\<close>

lemmas key_defs = createCacheKey_def stringifyKey_def jsonProperty_def quoteJSONString_def
  quoteChar_def base64Char_def Let_def

lemma exampleRequest_keys:
  "createCacheKey num exampleRequest ''openai'' = openaiKey"
  "createCacheKey num exampleRequest ''anthropic'' = anthropicKey"
  by (simp_all add: key_defs exampleRequest_def openaiKey_def anthropicKey_def)

lemma keys_distinct: "openaiKey \<noteq> anthropicKey"
  by (simp add: openaiKey_def anthropicKey_def)

lemma exampleRequest_estimate [simp]:
  "estimateTokens (baseEnv call) (prompt exampleRequest) = 2"
  by (simp add: estimateTokens_def baseEnv_def exampleRequest_def)

lemma baseEnv_complete [simp]: "complete (baseEnv call) = call"
  by (simp add: baseEnv_def)

lemmas run_defs = generateWithFallback_def checkUserQuota_def userUsageOf_def attempt_def
  canUseProvider_def executeRequest_def executeOpenAIRequest_def executeAnthropicRequest_def
  completion_def recordUsage_llm_def exponentialBackoff_def backoffDelay_def throwAggregate_def
  isNonRetryableError_def newService_def initialProviders_def emptyCache_def get_def set_entry_def
  isExpired_def Let_def

lemma fatal_run:
  "generateWithFallback fatalEnv exampleRequest ''alice'' (newService 0)
   = (Inl (AggregateError [unauthorized] ''All LLM providers failed. Tried: openai''),
      fatalOutcome)"
  by (simp add: run_defs fatalEnv_def exampleRequest_keys fatalOutcome_def unauthorized_def)

lemma down_run:
  "generateWithFallback downEnv exampleRequest ''alice'' (newService 0)
   = (Inl (AggregateError [unavailable, timedOut]
            ''All LLM providers failed. Tried: openai, anthropic''),
      downOutcome)"
  by (simp add: run_defs downEnv_def exampleRequest_keys downOutcome_def unavailable_def
      timedOut_def)

lemma fallback_run:
  "generateWithFallback fallbackEnv exampleRequest ''alice'' (newService 0)
   = (Inr (cachedResponse\<lparr>provider := Some ''anthropic'', processingTime := Some 2050\<rparr>),
      fallbackOutcome)"
  by (simp add: run_defs fallbackEnv_def exampleRequest_keys fallbackOutcome_def unavailable_def
      cachedResponse_def fun_eq_iff)

lemma warm_run:
  "generateWithFallback fallbackEnv exampleRequest ''alice'' warmService
   = (Inr (cachedResponse\<lparr>provider := Some ''openai''\<rparr>),
      warmService\<lparr>trace := [EvRateCheck ''openai'' True, EvCacheGet openaiKey]\<rparr>)"
  by (simp add: run_defs fallbackEnv_def exampleRequest_keys warmService_def)

lemma saturated_run:
  "generateWithFallback fallbackEnv exampleRequest ''alice'' saturatedService
   = (Inl (AggregateError [] ''All LLM providers failed. Tried: ''),
      saturatedService\<lparr>trace := [EvRateCheck ''openai'' False]\<rparr>)"
  by (simp add: run_defs fallbackEnv_def exampleRequest_keys saturatedService_def warmService_def)

lemma saturated_entry:
  "get (clock saturatedService) (cache saturatedService)
     (createCacheKey (numberToString fallbackEnv) exampleRequest ''openai'')
   = (Some cachedResponse, cache saturatedService)"
  by (simp add: exampleRequest_keys saturatedService_def warmService_def newService_def get_def
      set_entry_def isExpired_def)

lemma stale_run:
  "generateWithFallback downEnv exampleRequest ''alice'' staleService
   = (Inl (AggregateError [unavailable, timedOut]
            ''All LLM providers failed. Tried: openai, anthropic''),
      staleService\<lparr>cache := emptyCache, clock := 4123150,
        trace := [EvRateCheck ''openai'' True, EvCacheGet openaiKey, EvExecute ''openai'',
                EvFailed ''openai'' unavailable, EvBackoff 1000,
                EvRateCheck ''anthropic'' True, EvCacheGet anthropicKey, EvExecute ''anthropic'',
                EvFailed ''anthropic'' timedOut, EvBackoff 2000]\<rparr>)"
  by (simp add: run_defs downEnv_def exampleRequest_keys staleService_def unavailable_def
      timedOut_def fun_eq_iff keys_distinct)

lemma busy_sorted:
  "sort_key priority (providers busyService)
   = [(initialProviders ! 0)\<lparr>requests := 3500\<rparr>, initialProviders ! 1]"
  by (simp add: busyService_def initialProviders_def)

lemma joinWith_Cons: "ys \<noteq> [] \<Longrightarrow> joinWith sep (x # ys) = x @ sep @ joinWith sep ys"
  by (cases ys) simp_all

lemma sharedPrefix_key:
  "createCacheKey num \<lparr>prompt = sharedPrefix @ rest, model = m, maxTokens = mt,
                        temperature = t, responseFormat = rf\<rparr> p = sharedKey"
proof -
  let ?props = "jsonProperty ''model'' (map_option quoteJSONString m)
        @ jsonProperty ''maxTokens'' (map_option (\<lambda>n. num (real_of_int n)) mt)
        @ jsonProperty ''temperature'' (map_option num t)
        @ jsonProperty ''responseFormat'' (map_option quoteJSONString rf)
        @ jsonProperty ''provider'' (Some (quoteJSONString p))"
  have ne: "?props \<noteq> []" by (simp add: jsonProperty_def)
  have "stringifyKey num \<lparr>prompt = sharedPrefix @ rest, model = m, maxTokens = mt,
                        temperature = t, responseFormat = rf\<rparr> p
        = ''{'' @ joinWith '','' ((quoteJSONString ''prompt'' @ '':'' @ quoteJSONString (sharedPrefix @ rest)) # ?props) @ ''}''"
    by (simp add: stringifyKey_def jsonProperty_def)
  also have "\<dots> = ''{'' @ (quoteJSONString ''prompt'' @ '':'' @ quoteJSONString (sharedPrefix @ rest))
                    @ '','' @ joinWith '','' ?props @ ''}''"
    by (simp only: joinWith_Cons [OF ne] append_assoc)
  finally have "stringifyKey num \<lparr>prompt = sharedPrefix @ rest, model = m, maxTokens = mt,
                        temperature = t, responseFormat = rf\<rparr> p
      = ''{'' @ (quoteJSONString ''prompt'' @ '':'' @ quoteJSONString (sharedPrefix @ rest))
                    @ '','' @ joinWith '','' ?props @ ''}''" .
  then show ?thesis
    by (simp add: createCacheKey_def Let_def quoteJSONString_def quoteChar_def sharedPrefix_def
        base64Char_def sharedKey_def)
qed

section \<open>The claims about the broker\<close>

text \<open>
  Claim C5: when the caller's hourly usage plus the estimate of the request is above
  10000, or the daily usage plus the estimate is above 50000, \<^verbatim>\<open>generateWithFallback\<close>
  throws the quota error, the daily one if the daily ceiling is passed and the hourly one
  otherwise, and leaves the service as it was: no provider has been sorted, checked or
  called, the cache has not been read, and the trace has no new event. The check reads
  nothing but the caller's two counters.
\<close>

theorem per_caller_ceiling:
  assumes "hourly (userUsageOf s userId) + estimateTokens e (prompt request) > 10000
           \<or> daily (userUsageOf s userId) + estimateTokens e (prompt request) > 50000"
  shows "generateWithFallback e request userId s
           = (Inl (Thrown (newError
                 (if daily (userUsageOf s userId) + estimateTokens e (prompt request) > 50000
                  then ''User daily quota exceeded'' else ''User hourly quota exceeded''))), s)"
  using assms by (auto simp: generateWithFallback_def checkUserQuota_def Let_def)

theorem per_caller_ceiling_witness:
  "hourly (userUsageOf heavyService ''alice'') + estimateTokens fallbackEnv (prompt exampleRequest) = 10001
   \<and> generateWithFallback fallbackEnv exampleRequest ''alice'' heavyService
       = (Inl (Thrown (newError ''User hourly quota exceeded'')), heavyService)"
proof -
  have h: "hourly (userUsageOf heavyService ''alice'') + estimateTokens fallbackEnv (prompt exampleRequest) = 10001"
    and d: "daily (userUsageOf heavyService ''alice'') + estimateTokens fallbackEnv (prompt exampleRequest) = 10001"
    by (simp_all add: userUsageOf_def heavyService_def fallbackEnv_def)
  from h have "hourly (userUsageOf heavyService ''alice'') + estimateTokens fallbackEnv (prompt exampleRequest) > 10000
     \<or> daily (userUsageOf heavyService ''alice'') + estimateTokens fallbackEnv (prompt exampleRequest) > 50000"
    by simp
  from per_caller_ceiling [OF this] d h show ?thesis by simp
qed

text \<open>
  Claim C2, as stated: whenever a valid entry exists under the request's key, the cached
  result is returned at once, with no rate-limit check. It fails: the lookup is made
  inside the loop over the providers, after the rate-limit check of the provider whose
  name is part of the key. With OpenAI the only provider and at its request limit, a
  valid entry under the request's key is not returned and the request fails; and when
  the entry is returned, the rate-limit check has been made before the lookup, and what
  is returned is the entry with its \<open>provider\<close> set, with no other mark.
\<close>

theorem cached_entry_not_served_counterexample:
  "get (clock saturatedService) (cache saturatedService)
     (createCacheKey (numberToString fallbackEnv) exampleRequest ''openai'')
     = (Some cachedResponse, cache saturatedService)
   \<and> generateWithFallback fallbackEnv exampleRequest ''alice'' saturatedService
     = (Inl (AggregateError [] ''All LLM providers failed. Tried: ''),
        saturatedService\<lparr>trace := [EvRateCheck ''openai'' False]\<rparr>)
   \<and> generateWithFallback fallbackEnv exampleRequest ''alice'' warmService
     = (Inr (cachedResponse\<lparr>provider := Some ''openai''\<rparr>),
        warmService\<lparr>trace := [EvRateCheck ''openai'' True, EvCacheGet openaiKey]\<rparr>)"
  using saturated_entry saturated_run warm_run by blast

text \<open>
  Claim C2, amended: for a request that passes the per-caller check, if the first provider
  in the order of priority that passes its rate-limit check has an entry under the key of
  the request for that provider, and the entry is not expired, then
  \<^verbatim>\<open>generateWithFallback\<close> returns the payload of the entry with \<open>provider\<close> set to the name
  of that provider. The events are the rate-limit checks up to that provider and the
  lookup: no provider is called, no usage is recorded and the cache is not written; the
  service is as before but for the order of the providers.
\<close>

theorem cache_hit_after_rate_check:
  fixes e request userId s
  defines "ps \<equiv> sort_key priority (providers s)"
  defines "est \<equiv> estimateTokens e (prompt request)"
  assumes quota: "checkUserQuota s userId est = None"
    and j: "j < length ps"
    and skipped: "\<forall>i < j. \<not> canUseProvider (ps ! i) est"
    and usable: "canUseProvider (ps ! j) est"
    and entry: "memoryCache (cache s) (createCacheKey (numberToString e) request (name (ps ! j)))
                  = Some entry"
    and valid: "\<not> isExpired (clock s) entry"
  shows "generateWithFallback e request userId s
         = (Inr ((data entry)\<lparr>provider := Some (name (ps ! j))\<rparr>),
            s\<lparr>providers := ps,
              trace := trace s @ map (\<lambda>i. EvRateCheck (name (ps ! i)) False) [0..<j]
                       @ [EvRateCheck (name (ps ! j)) True,
                          EvCacheGet (createCacheKey (numberToString e) request (name (ps ! j)))]\<rparr>)"
proof -
  let ?s1 = "s\<lparr>providers := ps\<rparr>"
  let ?s2 = "?s1\<lparr>trace := trace ?s1 @ map (\<lambda>i. EvRateCheck (name (providers ?s1 ! i)) False) [0..<j]\<rparr>"
  have split: "[0..<length ps] = [0..<j] @ j # [Suc j..<length ps]"
    using j by (metis le0 upt_add_eq_append upt_conv_Cons le_add_diff_inverse less_imp_le_nat add_0)
  have sk: "\<forall>i \<in> set [0..<j]. \<not> canUseProvider (providers ?s1 ! i) est"
    using skipped by simp
  have us: "canUseProvider (providers ?s2 ! j) est" using usable by simp
  have g: "get (clock ?s2) (cache ?s2) (keyOf e request ?s2 j) = (Some (data entry), cache ?s2)"
    using entry valid by (simp add: get_def keyOf_def)
  have "generateWithFallback e request userId s
        = tryProviders e request userId est (clock s) ([0..<j] @ j # [Suc j..<length ps]) [] ?s1"
    using quota split by (simp add: generateWithFallback_def Let_def est_def ps_def)
  also have "\<dots> = tryProviders e request userId est (clock s) (j # [Suc j..<length ps]) [] ?s2"
    by (rule tryProviders_skip [OF sk])
  also have "\<dots> = (Inr ((data entry)\<lparr>provider := Some (name (ps ! j))\<rparr>),
            s\<lparr>providers := ps,
              trace := trace s @ map (\<lambda>i. EvRateCheck (name (ps ! i)) False) [0..<j]
                       @ [EvRateCheck (name (ps ! j)) True,
                          EvCacheGet (createCacheKey (numberToString e) request (name (ps ! j)))]\<rparr>)"
  proof -
    have "tryProviders e request userId est (clock s) (j # [Suc j..<length ps]) [] ?s2
          = (Inr ((data entry)\<lparr>provider := Some (name (providers ?s2 ! j))\<rparr>),
             ?s2\<lparr>cache := cache ?s2,
                 trace := trace ?s2 @ [EvRateCheck (name (providers ?s2 ! j)) True,
                                       EvCacheGet (keyOf e request ?s2 j)]\<rparr>)"
      by (simp only: tryProviders.simps attempt_hit [OF us g] prod.case attempt_result.case)
    then show ?thesis by (simp add: keyOf_def)
  qed
  finally show ?thesis .
qed

theorem cache_hit_after_rate_check_witness:
  "checkUserQuota busyService ''alice'' (estimateTokens fallbackEnv (prompt exampleRequest)) = None
   \<and> \<not> canUseProvider (sort_key priority (providers busyService) ! 0)
          (estimateTokens fallbackEnv (prompt exampleRequest))
   \<and> canUseProvider (sort_key priority (providers busyService) ! 1)
          (estimateTokens fallbackEnv (prompt exampleRequest))
   \<and> memoryCache (cache busyService) anthropicKey
       = Some \<lparr>data = cachedResponse, timestamp = 1000, ttl = 3600\<rparr>
   \<and> \<not> isExpired (clock busyService) \<lparr>data = cachedResponse, timestamp = 1000, ttl = 3600\<rparr>
   \<and> generateWithFallback fallbackEnv exampleRequest ''alice'' busyService
       = (Inr (cachedResponse\<lparr>provider := Some ''anthropic''\<rparr>),
          busyService\<lparr>providers := [(initialProviders ! 0)\<lparr>requests := 3500\<rparr>, initialProviders ! 1],
             trace := [EvRateCheck ''openai'' False, EvRateCheck ''anthropic'' True,
                       EvCacheGet anthropicKey]\<rparr>)"
proof -
  let ?est = "estimateTokens fallbackEnv (prompt exampleRequest)"
  let ?ps = "sort_key priority (providers busyService)"
  let ?en = "\<lparr>data = cachedResponse, timestamp = 1000, ttl = 3600\<rparr>"
  have est: "?est = 2" by (simp add: fallbackEnv_def)
  have q: "checkUserQuota busyService ''alice'' ?est = None"
    by (simp add: est checkUserQuota_def userUsageOf_def busyService_def newService_def)
  have j: "1 < length ?ps" by (simp add: busy_sorted)
  have n0: "\<not> canUseProvider (?ps ! 0) ?est"
    by (simp add: busy_sorted est canUseProvider_def initialProviders_def)
  then have sk: "\<forall>i<1. \<not> canUseProvider (?ps ! i) ?est" by simp
  have c1: "canUseProvider (?ps ! 1) ?est"
    by (simp add: busy_sorted est canUseProvider_def initialProviders_def)
  have nm: "name (?ps ! 1) = ''anthropic''" "name (?ps ! 0) = ''openai''"
    by (simp_all add: busy_sorted initialProviders_def)
  have tb: "trace busyService = []" by (simp add: busyService_def newService_def)
  have en': "memoryCache (cache busyService) anthropicKey = Some ?en"
    by (simp add: busyService_def set_entry_def)
  have en: "memoryCache (cache busyService)
              (createCacheKey (numberToString fallbackEnv) exampleRequest (name (?ps ! 1))) = Some ?en"
    using en' by (simp only: nm exampleRequest_keys)
  have v: "\<not> isExpired (clock busyService) ?en"
    by (simp add: isExpired_def busyService_def newService_def)
  have "generateWithFallback fallbackEnv exampleRequest ''alice'' busyService
       = (Inr (cachedResponse\<lparr>provider := Some ''anthropic''\<rparr>),
          busyService\<lparr>providers := [(initialProviders ! 0)\<lparr>requests := 3500\<rparr>, initialProviders ! 1],
             trace := [EvRateCheck ''openai'' False, EvRateCheck ''anthropic'' True,
                       EvCacheGet anthropicKey]\<rparr>)"
    using cache_hit_after_rate_check [OF q j sk c1 en v] tb
    by (simp add: busy_sorted initialProviders_def exampleRequest_keys)
  with q n0 c1 en' v show ?thesis by blast
qed

text \<open>
  Claim C4, as stated: after a non-retryable failure \<^verbatim>\<open>generateWithFallback\<close> raises the
  fatal error. It raises an \<^verbatim>\<open>AggregateError\<close> instead, which holds the fatal error: with
  OpenAI answering 401 and Anthropic able to answer, the value thrown is the aggregate of
  the one error, not the error.
\<close>

theorem fatal_error_wrapped_counterexample:
  "isNonRetryableError unauthorized
   \<and> fst (complete fatalEnv ''openai'' exampleRequest) = Inl unauthorized
   \<and> fst (generateWithFallback fatalEnv exampleRequest ''alice'' (newService 0))
       = Inl (AggregateError [unauthorized] ''All LLM providers failed. Tried: openai'')
   \<and> fst (generateWithFallback fatalEnv exampleRequest ''alice'' (newService 0))
       \<noteq> Inl (Thrown unauthorized)"
proof -
  have a: "isNonRetryableError unauthorized"
    by (simp add: isNonRetryableError_def unauthorized_def)
  have b: "fst (complete fatalEnv ''openai'' exampleRequest) = Inl unauthorized"
    by (simp add: fatalEnv_def)
  have c: "fst (generateWithFallback fatalEnv exampleRequest ''alice'' (newService 0))
       = Inl (AggregateError [unauthorized] ''All LLM providers failed. Tried: openai'')"
    by (simp add: fatal_run)
  then have d: "fst (generateWithFallback fatalEnv exampleRequest ''alice'' (newService 0))
       \<noteq> Inl (Thrown unauthorized)" by simp
  from a b c d show ?thesis by blast
qed

text \<open>
  Claim C4, amended: when a provider call of a request throws a non-retryable error, the
  only event after the call is the warning for that error, so no further provider is
  checked or called; the request throws the \<^verbatim>\<open>AggregateError\<close> of the errors thrown by
  the earlier provider calls of the request, all of them retryable, followed by the fatal
  error, with the message that lists the providers tried; no usage has been recorded and
  nothing written to the cache, and the counters of the providers and of the callers are
  as before. The last part is the step of the loop itself, at any point of it: an
  attempt that passes the rate-limit check, misses the cache and whose provider call
  throws a non-retryable error makes the loop throw that aggregate at once, whatever
  providers are left.
\<close>

theorem fatal_error_ends_request:
  assumes run: "generateWithFallback e request userId s = (res, s')"
    and called: "trace s' = trace s @ pre @ EvExecute n # post"
    and threw: "fst (executeRequest e s request n) = Inl err"
    and fatal: "isNonRetryableError err"
  shows "post = [EvFailed n err]
     \<and> res = Inl (AggregateError (map snd (failedCalls (outcomeOf e s request) pre) @ [err])
                 (''All LLM providers failed. Tried: ''
                    @ joinWith '', '' (map fst (failedCalls (outcomeOf e s request) pre) @ [n])))
     \<and> filter (\<lambda>x. isNonRetryableError (snd x)) (failedCalls (outcomeOf e s request) pre) = []
     \<and> filter isCharge (pre @ EvExecute n # post) = []
     \<and> providers s' = sort_key priority (providers s)
     \<and> userQuotas s' = userQuotas s
     \<and> (canUseProvider (providers t ! i) est
          \<and> fst (get (clock t) (cache t) (keyOf e request t i)) = None
          \<and> fst (executeRequest e t request (name (providers t ! i))) = Inl err \<longrightarrow>
        tryProviders e request userId est startTime (i # rest) errs t
         = (Inl (AggregateError (map snd errs @ [err])
                  (''All LLM providers failed. Tried: ''
                     @ joinWith '', '' (map fst errs @ [name (providers t ! i)]))),
            t\<lparr>cache := snd (get (clock t) (cache t) (keyOf e request t i)),
              clock := clock t + int (snd (executeRequest e t request (name (providers t ! i)))),
              trace := trace t @ [EvRateCheck (name (providers t ! i)) True,
                                  EvCacheGet (keyOf e request t i),
                                  EvExecute (name (providers t ! i)),
                                  EvFailed (name (providers t ! i)) err]\<rparr>))"
proof -
  let ?out = "outcomeOf e s request"
  from generateWithFallback_answered [OF run] called
  have an: "answered ?out userId None (pre @ EvExecute n # post)" by simp
  have o: "?out n = Inl err" using threw by (simp add: outcomeOf_def)
  from answered_call(2) [OF an o] obtain post' where p: "post = EvFailed n err # post'" by blast
  have fc: "failures pre = failedCalls ?out pre" by (rule answered_call(1) [OF an])
  from called p have failed: "trace s' = trace s @ (pre @ [EvExecute n]) @ EvFailed n err # post'"
    by simp
  note th = fatal_failure_is_last_event [OF run failed fatal]
  have fp: "failures (pre @ [EvExecute n]) = failedCalls ?out pre"
    by (simp add: failures_append fc)
  from th have p': "post' = []" by blast
  from th fp have res: "res = Inl (AggregateError (map snd (failedCalls ?out pre) @ [err])
                 (''All LLM providers failed. Tried: ''
                    @ joinWith '', '' (map fst (failedCalls ?out pre) @ [n])))" by simp
  from th fp have nf: "filter (\<lambda>x. isNonRetryableError (snd x)) (failedCalls ?out pre) = []"
    by (simp add: filter_empty_conv)
  from th p have nc: "filter isCharge (pre @ EvExecute n # post) = []" by simp
  from th have pu: "providers s' = sort_key priority (providers s)"
    "userQuotas s' = userQuotas s" by blast+
  have step: "canUseProvider (providers t ! i) est
          \<and> fst (get (clock t) (cache t) (keyOf e request t i)) = None
          \<and> fst (executeRequest e t request (name (providers t ! i))) = Inl err \<longrightarrow>
        tryProviders e request userId est startTime (i # rest) errs t
         = (Inl (AggregateError (map snd errs @ [err])
                  (''All LLM providers failed. Tried: ''
                     @ joinWith '', '' (map fst errs @ [name (providers t ! i)]))),
            t\<lparr>cache := snd (get (clock t) (cache t) (keyOf e request t i)),
              clock := clock t + int (snd (executeRequest e t request (name (providers t ! i)))),
              trace := trace t @ [EvRateCheck (name (providers t ! i)) True,
                                  EvCacheGet (keyOf e request t i),
                                  EvExecute (name (providers t ! i)),
                                  EvFailed (name (providers t ! i)) err]\<rparr>)"
    using tryProviders_fatal_step [OF _ _ _ fatal] by blast
  from p p' res nf nc pu step show ?thesis by blast
qed

theorem fatal_error_ends_request_witness:
  "generateWithFallback fatalEnv exampleRequest ''alice'' (newService 0)
     = (Inl (AggregateError [unauthorized] ''All LLM providers failed. Tried: openai''),
        fatalOutcome)
   \<and> trace fatalOutcome
     = trace (newService 0) @ [EvRateCheck ''openai'' True, EvCacheGet openaiKey]
         @ EvExecute ''openai'' # [EvFailed ''openai'' unauthorized]
   \<and> fst (executeRequest fatalEnv (newService 0) exampleRequest ''openai'') = Inl unauthorized
   \<and> isNonRetryableError unauthorized
   \<and> fst (executeRequest fatalEnv (newService 0) exampleRequest ''anthropic'')
       = Inr cachedResponse
   \<and> providers fatalOutcome = sort_key priority (providers (newService 0))
   \<and> userQuotas fatalOutcome = userQuotas (newService 0)
   \<and> filter isCharge (trace fatalOutcome) = []
   \<and> canUseProvider (providers (newService 0) ! 0) 2
   \<and> fst (get (clock (newService 0)) (cache (newService 0))
              (keyOf fatalEnv exampleRequest (newService 0) 0)) = None
   \<and> tryProviders fatalEnv exampleRequest ''alice'' 2 0 [0, 1] [] (newService 0)
       = (Inl (AggregateError [unauthorized] ''All LLM providers failed. Tried: openai''),
          fatalOutcome)"
proof -
  let ?pre = "[EvRateCheck ''openai'' True, EvCacheGet openaiKey]"
  have tr: "trace fatalOutcome
      = trace (newService 0) @ ?pre @ EvExecute ''openai'' # [EvFailed ''openai'' unauthorized]"
    by (simp add: fatalOutcome_def newService_def)
  have th: "fst (executeRequest fatalEnv (newService 0) exampleRequest ''openai'') = Inl unauthorized"
    by (simp add: executeRequest_def executeOpenAIRequest_def completion_def newService_def
        fatalEnv_def)
  have f: "isNonRetryableError unauthorized"
    by (simp add: isNonRetryableError_def unauthorized_def)
  have b: "fst (executeRequest fatalEnv (newService 0) exampleRequest ''anthropic'')
       = Inr cachedResponse"
    by (simp add: executeRequest_def executeAnthropicRequest_def completion_def newService_def
        fatalEnv_def cachedResponse_def)
  have nm: "name (providers (newService 0) ! 0) = ''openai''"
    by (simp add: newService_def initialProviders_def)
  have can: "canUseProvider (providers (newService 0) ! 0) 2"
    by (simp add: canUseProvider_def newService_def initialProviders_def)
  have miss: "fst (get (clock (newService 0)) (cache (newService 0))
              (keyOf fatalEnv exampleRequest (newService 0) 0)) = None"
    by (simp add: get_def newService_def emptyCache_def)
  have ms: "snd (executeRequest fatalEnv (newService 0) exampleRequest ''openai'') = 120"
    by (simp add: executeRequest_def executeOpenAIRequest_def completion_def newService_def
        fatalEnv_def)
  have g: "snd (get (clock (newService 0)) (cache (newService 0))
              (keyOf fatalEnv exampleRequest (newService 0) 0)) = cache (newService 0)"
    by (simp add: get_def newService_def emptyCache_def)
  note inst = fatal_error_ends_request [OF fatal_run tr th f,
      where t = "newService 0" and i = 0 and est = 2 and startTime = 0 and rest = "[1]"
        and errs = "[]"]
  from inst have p: "providers fatalOutcome = sort_key priority (providers (newService 0))"
    and u: "userQuotas fatalOutcome = userQuotas (newService 0)"
    and c: "filter isCharge (?pre @ EvExecute ''openai'' # [EvFailed ''openai'' unauthorized]) = []"
    by blast+
  from c have c': "filter isCharge (trace fatalOutcome) = []"
    by (simp add: fatalOutcome_def)
  from inst can miss th nm
  have "tryProviders fatalEnv exampleRequest ''alice'' 2 0 [0, 1] [] (newService 0)
       = (Inl (AggregateError [unauthorized] ''All LLM providers failed. Tried: openai''),
          (newService 0)\<lparr>cache := cache (newService 0), clock := clock (newService 0) + 120,
            trace := trace (newService 0) @ [EvRateCheck ''openai'' True,
                                  EvCacheGet (keyOf fatalEnv exampleRequest (newService 0) 0),
                                  EvExecute ''openai'', EvFailed ''openai'' unauthorized]\<rparr>)"
    by (simp add: ms g)
  then have step: "tryProviders fatalEnv exampleRequest ''alice'' 2 0 [0, 1] [] (newService 0)
       = (Inl (AggregateError [unauthorized] ''All LLM providers failed. Tried: openai''),
          fatalOutcome)"
    by (simp add: fatalOutcome_def newService_def keyOf_def initialProviders_def
        exampleRequest_keys)
  from fatal_run tr th f b p u c' can miss step show ?thesis by blast
qed

text \<open>
  Claim C8: every request either charges nothing or charges once. In the first case no
  usage is recorded and nothing is written to the cache, the providers are the same
  (sorted by priority), the per-caller counters are the same, and the cache answers every
  later lookup of every key as the cache before the request does: it differs at most by
  entries that were already expired, which the lookup before a provider call deletes as
  \<^verbatim>\<open>get\<close> always does. The second case only occurs when the request returns a response:
  then the last three events are a provider call that succeeded, the recording of its
  usage and the cache write, nothing is charged before them, and the response returned is
  the one of that call. So a request that throws, and every attempt that throws, charges
  nothing and leaves no part of a charge behind.
\<close>

theorem charge_only_after_success:
  assumes run: "generateWithFallback e request userId s = (res, s')"
  shows "\<exists>evs. trace s' = trace s @ evs \<and>
     (filter isCharge evs = []
        \<and> (providers s' = providers s \<or> providers s' = sort_key priority (providers s))
        \<and> userQuotas s' = userQuotas s
        \<and> cacheConfig (cache s') = cacheConfig (cache s)
        \<and> (\<forall>k. memoryCache (cache s') k = memoryCache (cache s) k
               \<or> (memoryCache (cache s') k = None
                  \<and> (\<exists>en. memoryCache (cache s) k = Some en \<and> isExpired (clock s') en)))
        \<and> (\<forall>k now. clock s' \<le> now \<longrightarrow>
               fst (get now (cache s') k) = fst (get now (cache s) k))
      \<or> (\<exists>pre n resp k r.
           res = Inr r
           \<and> evs = pre @ [EvExecute n, EvRecordUsage n (tokensUsed resp) userId, EvCacheSet k]
           \<and> filter isCharge pre = []
           \<and> fst (executeRequest e s request n) = Inr resp
           \<and> provider r = Some n \<and> content r = content resp
           \<and> tokensUsed r = tokensUsed resp \<and> cost r = cost resp))"
  (is "\<exists>evs. _ \<and> (?U evs \<or> ?F evs)")
proof (cases rule: generateWithFallback_cases [of s userId e request])
  case (denied err')
  with run have "s' = s" by simp
  then have "trace s' = trace s @ [] \<and> ?U []" by simp
  then show ?thesis by blast
next
  case admitted
  let ?s1 = "s\<lparr>providers := sort_key priority (providers s)\<rparr>"
  from admitted run have tp: "tryProviders e request userId (estimateTokens e (prompt request))
       (clock s) [0..<length (providers s)] [] ?s1 = (res, s')" by simp
  have ex: "executeRequest e ?s1 = executeRequest e s"
    by (rule executeRequest_clients) simp_all
  have unch: "?U evs" if "unchargedRun ?s1 s' evs" for evs
    using that evictedOnly_lookup [of "clock s'" "cache s" "cache s'"]
    by (simp add: unchargedRun_def evictedOnly_def)
  show ?thesis
  proof (cases res)
    case (Inl x)
    with tp have "tryProviders e request userId (estimateTokens e (prompt request))
       (clock s) [0..<length (providers s)] [] ?s1 = (Inl x, s')" by simp
    from tryProviders_failure [OF this] obtain evs where
      "trace s' = trace s @ evs" "unchargedRun ?s1 s' evs"
      by (auto simp: unchargedRun_def list_ex_iff filter_empty_conv)
    with unch show ?thesis by blast
  next
    case (Inr r)
    with tp have "tryProviders e request userId (estimateTokens e (prompt request))
       (clock s) [0..<length (providers s)] [] ?s1 = (Inr r, s')" by simp
    from tryProviders_success [OF this] obtain evs where
      tr: "trace s' = trace s @ evs"
      and d: "unchargedRun ?s1 s' evs \<or> chargedOnce e request userId ?s1 r evs"
      by auto
    from d show ?thesis
    proof
      assume "unchargedRun ?s1 s' evs"
      with unch tr show ?thesis by blast
    next
      assume "chargedOnce e request userId ?s1 r evs"
      then have "?F evs" unfolding chargedOnce_def using Inr ex by auto
      with tr show ?thesis by blast
    qed
  qed
qed

theorem charge_only_after_success_witness:
  "generateWithFallback fallbackEnv exampleRequest ''alice'' (newService 0)
     = (Inr (cachedResponse\<lparr>provider := Some ''anthropic'', processingTime := Some 2050\<rparr>),
        fallbackOutcome)
   \<and> filter isCharge (trace fallbackOutcome)
     = [EvRecordUsage ''anthropic'' 42 ''alice'', EvCacheSet anthropicKey]
   \<and> (\<exists>evs. trace fallbackOutcome = trace (newService 0) @ evs \<and>
        (\<exists>pre n resp k r.
           Inr (cachedResponse\<lparr>provider := Some ''anthropic'', processingTime := Some 2050\<rparr>)
             = (Inr r :: thrown + LLMResponse)
           \<and> evs = pre @ [EvExecute n, EvRecordUsage n (tokensUsed resp) ''alice'', EvCacheSet k]
           \<and> filter isCharge pre = []
           \<and> fst (executeRequest fallbackEnv (newService 0) exampleRequest n) = Inr resp
           \<and> provider r = Some n \<and> content r = content resp
           \<and> tokensUsed r = tokensUsed resp \<and> cost r = cost resp))
   \<and> fst (generateWithFallback downEnv exampleRequest ''alice'' staleService)
     = Inl (AggregateError [unavailable, timedOut]
              ''All LLM providers failed. Tried: openai, anthropic'')
   \<and> providers (snd (generateWithFallback downEnv exampleRequest ''alice'' staleService))
     = providers staleService
   \<and> userQuotas (snd (generateWithFallback downEnv exampleRequest ''alice'' staleService))
     = userQuotas staleService
   \<and> fst (get 4123150
             (cache (snd (generateWithFallback downEnv exampleRequest ''alice'' staleService)))
             openaiKey)
     = fst (get 4123150 (cache staleService) openaiKey)"
proof -
  have c: "filter isCharge (trace fallbackOutcome)
     = [EvRecordUsage ''anthropic'' 42 ''alice'', EvCacheSet anthropicKey]"
    by (simp add: fallbackOutcome_def)
  from charge_only_after_success [OF fallback_run] obtain evs where
    tr: "trace fallbackOutcome = trace (newService 0) @ evs"
    and d: "filter isCharge evs = []
        \<and> (providers fallbackOutcome = providers (newService 0)
            \<or> providers fallbackOutcome = sort_key priority (providers (newService 0)))
        \<and> userQuotas fallbackOutcome = userQuotas (newService 0)
        \<and> cacheConfig (cache fallbackOutcome) = cacheConfig (cache (newService 0))
        \<and> (\<forall>k. memoryCache (cache fallbackOutcome) k = memoryCache (cache (newService 0)) k
               \<or> (memoryCache (cache fallbackOutcome) k = None
                  \<and> (\<exists>en. memoryCache (cache (newService 0)) k = Some en
                          \<and> isExpired (clock fallbackOutcome) en)))
        \<and> (\<forall>k now. clock fallbackOutcome \<le> now \<longrightarrow>
               fst (get now (cache fallbackOutcome) k) = fst (get now (cache (newService 0)) k))
      \<or> (\<exists>pre n resp k r.
           Inr (cachedResponse\<lparr>provider := Some ''anthropic'', processingTime := Some 2050\<rparr>)
             = (Inr r :: thrown + LLMResponse)
           \<and> evs = pre @ [EvExecute n, EvRecordUsage n (tokensUsed resp) ''alice'', EvCacheSet k]
           \<and> filter isCharge pre = []
           \<and> fst (executeRequest fallbackEnv (newService 0) exampleRequest n) = Inr resp
           \<and> provider r = Some n \<and> content r = content resp
           \<and> tokensUsed r = tokensUsed resp \<and> cost r = cost resp)"
    by blast
  from tr have "evs = trace fallbackOutcome" by (simp add: newService_def)
  with c have "filter isCharge evs \<noteq> []" by simp
  with d have f: "\<exists>pre n resp k r.
           Inr (cachedResponse\<lparr>provider := Some ''anthropic'', processingTime := Some 2050\<rparr>)
             = (Inr r :: thrown + LLMResponse)
           \<and> evs = pre @ [EvExecute n, EvRecordUsage n (tokensUsed resp) ''alice'', EvCacheSet k]
           \<and> filter isCharge pre = []
           \<and> fst (executeRequest fallbackEnv (newService 0) exampleRequest n) = Inr resp
           \<and> provider r = Some n \<and> content r = content resp
           \<and> tokensUsed r = tokensUsed resp \<and> cost r = cost resp" by blast
  let ?after = "snd (generateWithFallback downEnv exampleRequest ''alice'' staleService)"
  have res: "fst (generateWithFallback downEnv exampleRequest ''alice'' staleService)
     = Inl (AggregateError [unavailable, timedOut]
              ''All LLM providers failed. Tried: openai, anthropic'')"
    by (simp add: stale_run)
  have cl: "clock ?after = 4123150" by (simp add: stale_run)
  have srt: "sort_key priority (providers staleService) = providers staleService"
    by (simp add: staleService_def newService_def initialProviders_def)
  have run2: "generateWithFallback downEnv exampleRequest ''alice'' staleService
     = (Inl (AggregateError [unavailable, timedOut]
              ''All LLM providers failed. Tried: openai, anthropic''), ?after)"
    using res by (simp add: prod_eq_iff)
  from charge_only_after_success [OF run2] obtain evs2 where
    "filter isCharge evs2 = []
        \<and> (providers ?after = providers staleService
            \<or> providers ?after = sort_key priority (providers staleService))
        \<and> userQuotas ?after = userQuotas staleService
        \<and> cacheConfig (cache ?after) = cacheConfig (cache staleService)
        \<and> (\<forall>k. memoryCache (cache ?after) k = memoryCache (cache staleService) k
               \<or> (memoryCache (cache ?after) k = None
                  \<and> (\<exists>en. memoryCache (cache staleService) k = Some en
                          \<and> isExpired (clock ?after) en)))
        \<and> (\<forall>k now. clock ?after \<le> now \<longrightarrow>
               fst (get now (cache ?after) k) = fst (get now (cache staleService) k))"
    by blast
  then have p2: "providers ?after = providers staleService"
    and u2: "userQuotas ?after = userQuotas staleService"
    and g2: "fst (get 4123150 (cache ?after) openaiKey)
             = fst (get 4123150 (cache staleService) openaiKey)"
    using srt cl by auto
  from fallback_run c tr f res p2 u2 g2 show ?thesis by blast
qed

text \<open>
  Claim C9: when a provider call of a request throws a retryable error and \<open>n - 1\<close>
  provider calls of the request have thrown before it (all with retryable errors), the
  events that directly follow the call are the warning for the error and the backoff
  with the delay \<open>min (1000 * 2 ^ (n - 1)) 30000\<close> milliseconds. Conversely every backoff
  among the events comes directly after such a failure, with that delay for the \<open>n\<close>-th
  failure, and every failure with a retryable error is directly followed by it. The
  backoff moves the clock on by its delay; and the last part is the step of the loop
  itself, at any point of it: an attempt whose provider call throws a retryable error
  when \<open>errs\<close> holds the errors caught before goes on to the providers left with the clock
  moved on by the duration of the call and by \<open>min (1000 * 2 ^ length errs) 30000\<close>.
\<close>

theorem backoff_schedule:
  assumes run: "generateWithFallback e request userId s = (res, s')"
  shows "(\<forall>pre n err post. trace s' = trace s @ pre @ EvExecute n # post
              \<and> fst (executeRequest e s request n) = Inl err
              \<and> \<not> isNonRetryableError err \<longrightarrow>
            (\<exists>post'. post = EvFailed n err
                 # EvBackoff (min (1000 * 2 ^ length (failedCalls (outcomeOf e s request) pre)) 30000)
                 # post')
            \<and> filter (\<lambda>x. isNonRetryableError (snd x))
                  (failedCalls (outcomeOf e s request) pre) = [])
       \<and> (\<forall>pre d post. trace s' = trace s @ pre @ EvBackoff d # post \<longrightarrow>
            1 \<le> length (failures pre)
            \<and> d = min (1000 * 2 ^ (length (failures pre) - 1)) 30000
            \<and> pre \<noteq> [] \<and> (\<exists>n err. last pre = EvFailed n err \<and> \<not> isNonRetryableError err)
            \<and> filter (\<lambda>x. isNonRetryableError (snd x)) (failures pre) = [])
       \<and> (\<forall>pre n err post. trace s' = trace s @ pre @ EvFailed n err # post
              \<and> \<not> isNonRetryableError err \<longrightarrow>
            (\<exists>post'. post = EvBackoff (min (1000 * 2 ^ length (failures pre)) 30000) # post'))
       \<and> (\<forall>n t. 1 \<le> n \<longrightarrow>
            clock (exponentialBackoff n t) = clock t + int (min (1000 * 2 ^ (n - 1)) 30000))
       \<and> (\<forall>t i est startTime rest errs err.
            canUseProvider (providers t ! i) est
            \<and> fst (get (clock t) (cache t) (keyOf e request t i)) = None
            \<and> fst (executeRequest e t request (name (providers t ! i))) = Inl err
            \<and> \<not> isNonRetryableError err \<longrightarrow>
            tryProviders e request userId est startTime (i # rest) errs t
            = tryProviders e request userId est startTime rest
                (errs @ [(name (providers t ! i), err)])
                (t\<lparr>cache := snd (get (clock t) (cache t) (keyOf e request t i)),
                   clock := clock t
                            + int (snd (executeRequest e t request (name (providers t ! i))))
                            + int (min (1000 * 2 ^ length errs) 30000),
                   trace := trace t @ [EvRateCheck (name (providers t ! i)) True,
                                       EvCacheGet (keyOf e request t i),
                                       EvExecute (name (providers t ! i)),
                                       EvFailed (name (providers t ! i)) err,
                                       EvBackoff (min (1000 * 2 ^ length errs) 30000)]\<rparr>))"
proof -
  let ?out = "outcomeOf e s request"
  from generateWithFallback_answered [OF run] obtain evs where
    tr: "trace s' = trace s @ evs" and an: "answered ?out userId None evs" by blast
  from generateWithFallback_sched [OF run] tr have sc: "sched False 0 evs" by auto
  have a: "(\<exists>post'. post = EvFailed n err
                 # EvBackoff (min (1000 * 2 ^ length (failedCalls ?out pre)) 30000) # post')
            \<and> filter (\<lambda>x. isNonRetryableError (snd x)) (failedCalls ?out pre) = []"
    if h: "trace s' = trace s @ pre @ EvExecute n # post
              \<and> fst (executeRequest e s request n) = Inl err
              \<and> \<not> isNonRetryableError err" for pre n err post
  proof -
    from h tr have ev: "evs = pre @ EvExecute n # post" by simp
    from h have o: "?out n = Inl err" by (simp add: outcomeOf_def)
    from an ev have an': "answered ?out userId None (pre @ EvExecute n # post)" by simp
    from answered_call(2) [OF an' o] obtain post1 where p: "post = EvFailed n err # post1"
      by blast
    have fc: "failures pre = failedCalls ?out pre" by (rule answered_call(1) [OF an'])
    from sc ev p have "sched False 0 ((pre @ [EvExecute n]) @ EvFailed n err # post1)" by simp
    note sf = sched_failed [OF this]
    have fp: "failures (pre @ [EvExecute n]) = failedCalls ?out pre"
      by (simp add: failures_append fc)
    from sf h obtain post2 where
      "post1 = EvBackoff (backoffDelay (Suc (length (failedCalls ?out pre)))) # post2"
      unfolding fp by auto
    then have "post1 = EvBackoff (min (1000 * 2 ^ length (failedCalls ?out pre)) 30000) # post2"
      by (simp add: backoffDelay_def)
    moreover from sf have "filter (\<lambda>x. isNonRetryableError (snd x)) (failedCalls ?out pre) = []"
      unfolding fp by (simp add: filter_empty_conv)
    ultimately show ?thesis using p by blast
  qed
  have step: "tryProviders e request userId est startTime (i # rest) errs t
            = tryProviders e request userId est startTime rest
                (errs @ [(name (providers t ! i), err)])
                (t\<lparr>cache := snd (get (clock t) (cache t) (keyOf e request t i)),
                   clock := clock t
                            + int (snd (executeRequest e t request (name (providers t ! i))))
                            + int (min (1000 * 2 ^ length errs) 30000),
                   trace := trace t @ [EvRateCheck (name (providers t ! i)) True,
                                       EvCacheGet (keyOf e request t i),
                                       EvExecute (name (providers t ! i)),
                                       EvFailed (name (providers t ! i)) err,
                                       EvBackoff (min (1000 * 2 ^ length errs) 30000)]\<rparr>)"
    if "canUseProvider (providers t ! i) est
            \<and> fst (get (clock t) (cache t) (keyOf e request t i)) = None
            \<and> fst (executeRequest e t request (name (providers t ! i))) = Inl err
            \<and> \<not> isNonRetryableError err" for t i est startTime rest errs err
    using that tryProviders_retry_step by blast
  from backoff_events [OF run] a step show ?thesis by blast
qed

theorem backoff_schedule_witness:
  "generateWithFallback downEnv exampleRequest ''alice'' (newService 0)
     = (Inl (AggregateError [unavailable, timedOut]
              ''All LLM providers failed. Tried: openai, anthropic''), downOutcome)
   \<and> trace downOutcome
     = trace (newService 0) @ take 7 (trace downOutcome) @ EvExecute ''anthropic''
         # [EvFailed ''anthropic'' timedOut, EvBackoff 2000]
   \<and> fst (executeRequest downEnv (newService 0) exampleRequest ''anthropic'') = Inl timedOut
   \<and> failedCalls (outcomeOf downEnv (newService 0) exampleRequest) (take 7 (trace downOutcome))
     = [(''openai'', unavailable)]
   \<and> (2000 :: nat)
     = min (1000 * 2 ^ length (failedCalls (outcomeOf downEnv (newService 0) exampleRequest)
                                 (take 7 (trace downOutcome)))) 30000
   \<and> trace downOutcome
     = trace (newService 0) @ take 4 (trace downOutcome) @ EvBackoff 1000 # drop 5 (trace downOutcome)
   \<and> trace downOutcome
     = trace (newService 0) @ take 9 (trace downOutcome) @ EvBackoff 2000 # []
   \<and> length (failures (take 4 (trace downOutcome))) = 1
   \<and> length (failures (take 9 (trace downOutcome))) = 2
   \<and> \<not> isNonRetryableError unavailable \<and> \<not> isNonRetryableError timedOut
   \<and> (1000 :: nat) = min (1000 * 2 ^ (length (failures (take 4 (trace downOutcome))) - 1)) 30000
   \<and> (2000 :: nat) = min (1000 * 2 ^ (length (failures (take 9 (trace downOutcome))) - 1)) 30000
   \<and> clock (exponentialBackoff 6 (newService 0)) = 30000
   \<and> canUseProvider (providers (newService 0) ! 0) 2
   \<and> fst (get (clock (newService 0)) (cache (newService 0))
              (keyOf downEnv exampleRequest (newService 0) 0)) = None
   \<and> fst (executeRequest downEnv (newService 0) exampleRequest ''openai'') = Inl unavailable
   \<and> tryProviders downEnv exampleRequest ''alice'' 2 0 [0, 1] [] (newService 0)
     = tryProviders downEnv exampleRequest ''alice'' 2 0 [1] [(''openai'', unavailable)]
         ((newService 0)\<lparr>clock := 1150,
            trace := [EvRateCheck ''openai'' True, EvCacheGet openaiKey, EvExecute ''openai'',
                      EvFailed ''openai'' unavailable, EvBackoff 1000]\<rparr>)"
proof -
  let ?out = "outcomeOf downEnv (newService 0) exampleRequest"
  have t0: "trace downOutcome
     = trace (newService 0) @ take 7 (trace downOutcome) @ EvExecute ''anthropic''
         # [EvFailed ''anthropic'' timedOut, EvBackoff 2000]"
    and t1: "trace downOutcome
     = trace (newService 0) @ take 4 (trace downOutcome) @ EvBackoff 1000 # drop 5 (trace downOutcome)"
    and t2: "trace downOutcome
     = trace (newService 0) @ take 9 (trace downOutcome) @ EvBackoff 2000 # []"
    by (simp_all add: downOutcome_def newService_def)
  have xa: "fst (executeRequest downEnv (newService 0) exampleRequest ''anthropic'') = Inl timedOut"
    and xo: "fst (executeRequest downEnv (newService 0) exampleRequest ''openai'') = Inl unavailable"
    and ms: "snd (executeRequest downEnv (newService 0) exampleRequest ''openai'') = 150"
    by (simp_all add: executeRequest_def executeOpenAIRequest_def executeAnthropicRequest_def
        completion_def newService_def downEnv_def)
  have fc: "failedCalls ?out (take 7 (trace downOutcome)) = [(''openai'', unavailable)]"
    by (simp add: downOutcome_def outcomeOf_def xo)
  have l: "length (failures (take 4 (trace downOutcome))) = 1"
    "length (failures (take 9 (trace downOutcome))) = 2"
    by (simp_all add: downOutcome_def)
  have r: "\<not> isNonRetryableError unavailable" "\<not> isNonRetryableError timedOut"
    by (simp_all add: isNonRetryableError_def unavailable_def timedOut_def)
  have nm: "name (providers (newService 0) ! 0) = ''openai''"
    by (simp add: newService_def initialProviders_def)
  have can: "canUseProvider (providers (newService 0) ! 0) 2"
    by (simp add: canUseProvider_def newService_def initialProviders_def)
  have miss: "fst (get (clock (newService 0)) (cache (newService 0))
              (keyOf downEnv exampleRequest (newService 0) 0)) = None"
    by (simp add: get_def newService_def emptyCache_def)
  have k: "keyOf downEnv exampleRequest (newService 0) 0 = openaiKey"
    by (simp add: keyOf_def nm exampleRequest_keys)
  note th = backoff_schedule [OF down_run]
  note call = th [THEN conjunct1, rule_format]
  note delay = th [THEN conjunct2, THEN conjunct1, rule_format]
  note tick = th [THEN conjunct2, THEN conjunct2, THEN conjunct2, THEN conjunct1, rule_format]
  note loop = th [THEN conjunct2, THEN conjunct2, THEN conjunct2, THEN conjunct2, rule_format]
  from call [OF conjI [OF t0 conjI [OF xa r(2)]]] obtain post' where
    "[EvFailed ''anthropic'' timedOut, EvBackoff 2000]
     = EvFailed ''anthropic'' timedOut
       # EvBackoff (min (1000 * 2 ^ length (failedCalls ?out (take 7 (trace downOutcome)))) 30000)
       # post'" by blast
  then have d0: "(2000 :: nat)
     = min (1000 * 2 ^ length (failedCalls ?out (take 7 (trace downOutcome)))) 30000" by simp
  from delay [OF t1] have d1: "(1000 :: nat)
      = min (1000 * 2 ^ (length (failures (take 4 (trace downOutcome))) - 1)) 30000" by blast
  from delay [OF t2] have d2: "(2000 :: nat)
      = min (1000 * 2 ^ (length (failures (take 9 (trace downOutcome))) - 1)) 30000" by blast
  from tick [of 6 "newService 0"] have "clock (exponentialBackoff 6 (newService 0))
      = clock (newService 0) + int (min (1000 * 2 ^ (6 - 1)) 30000)" by simp
  then have c: "clock (exponentialBackoff 6 (newService 0)) = 30000"
    by (simp add: newService_def)
  have xo': "fst (executeRequest downEnv (newService 0) exampleRequest
                   (name (providers (newService 0) ! 0))) = Inl unavailable"
    using xo by (simp only: nm)
  have st: "(newService 0)\<lparr>cache := snd (get (clock (newService 0)) (cache (newService 0))
                                       (keyOf downEnv exampleRequest (newService 0) 0)),
            clock := clock (newService 0)
                     + int (snd (executeRequest downEnv (newService 0) exampleRequest
                                   (name (providers (newService 0) ! 0))))
                     + int (min (1000 * 2 ^ length ([] :: (string \<times> js_error) list)) 30000),
            trace := trace (newService 0) @ [EvRateCheck (name (providers (newService 0) ! 0)) True,
                      EvCacheGet (keyOf downEnv exampleRequest (newService 0) 0),
                      EvExecute (name (providers (newService 0) ! 0)),
                      EvFailed (name (providers (newService 0) ! 0)) unavailable,
                      EvBackoff (min (1000 * 2 ^ length ([] :: (string \<times> js_error) list)) 30000)]\<rparr>
      = (newService 0)\<lparr>clock := 1150,
            trace := [EvRateCheck ''openai'' True, EvCacheGet openaiKey, EvExecute ''openai'',
                      EvFailed ''openai'' unavailable, EvBackoff 1000]\<rparr>"
    by (simp only: nm ms k) (simp add: newService_def get_def emptyCache_def)
  have er: "[] @ [(name (providers (newService 0) ! 0), unavailable)]
      = [(''openai'', unavailable)]"
    by (simp add: nm)
  from loop [OF conjI [OF can conjI [OF miss conjI [OF xo' r(1)]]]]
  have "tryProviders downEnv exampleRequest ''alice'' 2 0 (0 # [1]) [] (newService 0)
     = tryProviders downEnv exampleRequest ''alice'' 2 0 [1]
         ([] @ [(name (providers (newService 0) ! 0), unavailable)])
         ((newService 0)\<lparr>cache := snd (get (clock (newService 0)) (cache (newService 0))
                                       (keyOf downEnv exampleRequest (newService 0) 0)),
            clock := clock (newService 0)
                     + int (snd (executeRequest downEnv (newService 0) exampleRequest
                                   (name (providers (newService 0) ! 0))))
                     + int (min (1000 * 2 ^ length ([] :: (string \<times> js_error) list)) 30000),
            trace := trace (newService 0) @ [EvRateCheck (name (providers (newService 0) ! 0)) True,
                      EvCacheGet (keyOf downEnv exampleRequest (newService 0) 0),
                      EvExecute (name (providers (newService 0) ! 0)),
                      EvFailed (name (providers (newService 0) ! 0)) unavailable,
                      EvBackoff (min (1000 * 2 ^ length ([] :: (string \<times> js_error) list)) 30000)]\<rparr>)" .
  then have step: "tryProviders downEnv exampleRequest ''alice'' 2 0 [0, 1] [] (newService 0)
     = tryProviders downEnv exampleRequest ''alice'' 2 0 [1] [(''openai'', unavailable)]
         ((newService 0)\<lparr>clock := 1150,
            trace := [EvRateCheck ''openai'' True, EvCacheGet openaiKey, EvExecute ''openai'',
                      EvFailed ''openai'' unavailable, EvBackoff 1000]\<rparr>)"
    unfolding st er .
  from down_run t0 xa fc d0 t1 t2 l r d1 d2 c can miss xo step show ?thesis by blast
qed

text \<open>
  Claim C10: the cache key is a function of the request and the provider name, and it is
  not injective. It is \<^verbatim>\<open>llm:\<close> followed by the first 50 characters of the base64 text,
  which encode the first 37 bytes of the JSON text and half of the next one. So all
  requests whose prompts begin with the same 36 plain characters have the same key,
  whatever the rest of the prompt, the model, the token limit, the temperature, the
  response format and the provider. The two requests below differ in their prompts and
  parameters, and the second is answered with the cached response of the first.
\<close>

theorem cache_key_not_injective:
  "createCacheKey num \<lparr>prompt = sharedPrefix @ rest, model = m, maxTokens = mt,
                        temperature = t, responseFormat = rf\<rparr> p
     = createCacheKey num' \<lparr>prompt = sharedPrefix @ rest', model = m', maxTokens = mt',
                        temperature = t', responseFormat = rf'\<rparr> p'
   \<and> catsRequest \<noteq> dogsRequest \<and> prompt catsRequest \<noteq> prompt dogsRequest
   \<and> createCacheKey (numberToString echoEnv) catsRequest ''openai''
       = createCacheKey (numberToString echoEnv) dogsRequest ''openai''
   \<and> fst (generateWithFallback echoEnv catsRequest ''alice'' (newService 0))
       = Inr \<lparr>content = ''Answer to: '' @ prompt catsRequest, tokensUsed = 10, cost = 0,
              provider = Some ''openai'', processingTime = Some 5\<rparr>
   \<and> fst (generateWithFallback echoEnv dogsRequest ''bob''
             (snd (generateWithFallback echoEnv catsRequest ''alice'' (newService 0))))
       = Inr \<lparr>content = ''Answer to: '' @ prompt catsRequest, tokensUsed = 10, cost = 0,
              provider = Some ''openai'', processingTime = None\<rparr>"
proof -
  have k: "createCacheKey n' catsRequest q = sharedKey" "createCacheKey n' dogsRequest q = sharedKey"
    for n' q
    by (simp_all add: catsRequest_def dogsRequest_def sharedPrefix_key)
  have est: "estimateTokens (baseEnv call) (prompt catsRequest) = 17"
    "estimateTokens (baseEnv call) (prompt dogsRequest) = 17" for call
    by (simp_all add: estimateTokens_def baseEnv_def catsRequest_def dogsRequest_def
        sharedPrefix_def)
  have first: "generateWithFallback echoEnv catsRequest ''alice'' (newService 0)
     = (Inr \<lparr>content = ''Answer to: '' @ prompt catsRequest, tokensUsed = 10, cost = 0,
              provider = Some ''openai'', processingTime = Some 5\<rparr>,
        (newService 0)\<lparr>
          providers := [(initialProviders ! 0)\<lparr>tokens := 10, requests := 1\<rparr>, initialProviders ! 1],
          userQuotas := (\<lambda>u. None)(''alice'' \<mapsto> \<lparr>daily = 10, hourly = 10\<rparr>),
          cache := set_entry 5 emptyCache sharedKey
             \<lparr>content = ''Answer to: '' @ prompt catsRequest, tokensUsed = 10, cost = 0,
              provider = None, processingTime = None\<rparr> (Some 3600),
          clock := 5,
          trace := [EvRateCheck ''openai'' True, EvCacheGet sharedKey, EvExecute ''openai'',
                    EvRecordUsage ''openai'' 10 ''alice'', EvCacheSet sharedKey]\<rparr>)"
    by (simp add: run_defs est k echoEnv_def fun_eq_iff)
  have second: "fst (generateWithFallback echoEnv dogsRequest ''bob''
             (snd (generateWithFallback echoEnv catsRequest ''alice'' (newService 0))))
       = Inr \<lparr>content = ''Answer to: '' @ prompt catsRequest, tokensUsed = 10, cost = 0,
              provider = Some ''openai'', processingTime = None\<rparr>"
    unfolding first by (simp add: run_defs est k echoEnv_def)
  have ne: "prompt catsRequest \<noteq> prompt dogsRequest"
    by (simp add: catsRequest_def dogsRequest_def)
  then have ne': "catsRequest \<noteq> dogsRequest" by auto
  show ?thesis
    using k ne ne' second by (simp add: sharedPrefix_key first)
qed

end
